theory Spec2Isabelle
  imports Complex_Main
begin

section \<open>Golden-section line search (\<^verbatim>\<open>src/line_search.py\<close>, function \<^verbatim>\<open>goldensection\<close>)\<close>

text \<open>
  The Python source computes with numpy arrays of IEEE doubles. The embedding computes
  with exact reals: a point is the list of its components, and the numpy operations the
  routine uses are the component-wise ones on arrays of the same shape. Rounding and
  numpy's broadcasting of unequal shapes are outside the model; every theorem that needs
  start and direction to have the same shape says so. What is proved below is proved of
  this exact arithmetic; where the doubles of the source behave otherwise, the text says
  so.
\<close>

subsection \<open>numpy arithmetic on one-dimensional arrays\<close>

type_synonym vec = "real list"

definition vadd :: "vec \<Rightarrow> vec \<Rightarrow> vec" where
  \<comment> \<open>\<^verbatim>\<open>a + b\<close>\<close>
  "vadd a b = map2 (+) a b"

definition vsub :: "vec \<Rightarrow> vec \<Rightarrow> vec" where
  \<comment> \<open>\<^verbatim>\<open>a - b\<close>\<close>
  "vsub a b = map2 (-) a b"

definition smul :: "real \<Rightarrow> vec \<Rightarrow> vec" where
  \<comment> \<open>\<^verbatim>\<open>c*a\<close> and \<^verbatim>\<open>a*c\<close> for a scalar \<^verbatim>\<open>c\<close>\<close>
  "smul c a = map ((*) c) a"

definition sdiv :: "vec \<Rightarrow> real \<Rightarrow> vec" where
  \<comment> \<open>\<^verbatim>\<open>a / c\<close> for a nonzero scalar constant \<^verbatim>\<open>c\<close>\<close>
  "sdiv a c = map (\<lambda>u. u / c) a"

definition np_linalg_norm :: "vec \<Rightarrow> real" where
  \<comment> \<open>\<^verbatim>\<open>np.linalg.norm\<close>: the 2-norm of the flattened array\<close>
  "np_linalg_norm a = sqrt (\<Sum>u\<leftarrow>a. u\<^sup>2)"

text \<open>
  \<^verbatim>\<open>a / b\<close> on arrays does not raise where a component of \<^verbatim>\<open>b\<close> is zero: numpy
  warns and stores \<^verbatim>\<open>nan\<close> or an infinity there. \<open>None\<close> stands for such a
  non-finite entry; \<^verbatim>\<open>np.average\<close> of an array with a non-finite entry, and of an
  empty array, is again not a finite number.
\<close>

definition np_divide :: "vec \<Rightarrow> vec \<Rightarrow> real option list" where
  "np_divide a b = map2 (\<lambda>u d. if d = 0 then None else Some (u / d)) a b"

definition np_average :: "real option list \<Rightarrow> real option" where
  "np_average qs =
     (if qs = [] \<or> None \<in> set qs then None
      else Some ((\<Sum>q\<leftarrow>qs. the q) / real (length qs)))"

subsection \<open>The search\<close>

definition iphi :: real where
  \<comment> \<open>\<^verbatim>\<open>iphi = (5**0.5 - 1) / 2  # 1/phi\<close>\<close>
  "iphi = (sqrt 5 - 1) / 2"

definition iphi2 :: real where
  \<comment> \<open>\<^verbatim>\<open>iphi2 = (3 - 5**0.5) / 2  # 1/phi^2\<close>\<close>
  "iphi2 = (3 - sqrt 5) / 2"

text \<open>
  The objective is a Python callable. Calling it returns a number and may change the
  state of the program around the search; \<open>'w\<close> is that state, and a call maps the state
  before it to the state after it.
\<close>

type_synonym 'w objective = "vec \<Rightarrow> 'w \<Rightarrow> real \<times> 'w"

text \<open>
  The state one call of \<^verbatim>\<open>goldensection\<close> runs in: its local counter \<^verbatim>\<open>nfev\<close>, and the
  state of the program around it, which only calls of the objective touch.
\<close>

record 'w search_state =
  nfev :: int
  world :: 'w

definition goldensection_f :: "'w objective \<Rightarrow> vec \<Rightarrow> 'w search_state \<Rightarrow> real \<times> 'w search_state" where
  \<comment> \<open>\<^verbatim>\<open>_f\<close>: \<^verbatim>\<open>nfev += 1; return func(x)\<close>\<close>
  "goldensection_f func v st =
     (let st = st\<lparr>nfev := nfev st + 1\<rparr>;
          (y, w) = func v (world st)
      in (y, st\<lparr>world := w\<rparr>))"

text \<open>
  The arguments of one invocation of \<^verbatim>\<open>_gs\<close>; an optional argument left at its
  default \<^verbatim>\<open>None\<close> is \<open>None\<close>.
\<close>

record gs_args =
  arg_x1 :: vec
  arg_x4 :: vec
  arg_h :: "vec option"
  arg_x2 :: "vec option"
  arg_x3 :: "vec option"
  arg_fx2 :: "real option"
  arg_fx3 :: "real option"

text \<open>
  What one execution of the body of \<^verbatim>\<open>_gs\<close> ends in: a returned point, or the
  recursive call \<^verbatim>\<open>return _gs(...)\<close> with its arguments.
\<close>

datatype gs_action = Return vec | Recurse gs_args

definition goldensection_gs_body ::
  "'w objective \<Rightarrow> real \<Rightarrow> gs_args \<Rightarrow> 'w search_state \<Rightarrow> gs_action \<times> 'w search_state" where
  "goldensection_gs_body func precision a st =
     (let x1 = arg_x1 a; x4 = arg_x4 a;
          h = (case arg_h a of None \<Rightarrow> vsub x4 x1 | Some v \<Rightarrow> v)
      in if np_linalg_norm h \<le> precision then (Return (sdiv (vadd x1 x4) 2), st)
         else
           let x2 = (case arg_x2 a of None \<Rightarrow> vadd x1 (smul iphi2 h) | Some v \<Rightarrow> v);
               x3 = (case arg_x3 a of None \<Rightarrow> vadd x1 (smul iphi h) | Some v \<Rightarrow> v);
               (fx2, st) = (case arg_fx2 a of None \<Rightarrow> goldensection_f func x2 st
                            | Some v \<Rightarrow> (v, st));
               (fx3, st) = (case arg_fx3 a of None \<Rightarrow> goldensection_f func x3 st
                            | Some v \<Rightarrow> (v, st))
           in if fx2 < fx3
              then (Recurse \<lparr>arg_x1 = x1, arg_x4 = x3, arg_h = Some (smul iphi h),
                             arg_x2 = None, arg_x3 = Some x2,
                             arg_fx2 = None, arg_fx3 = Some fx2\<rparr>, st)
              else (Recurse \<lparr>arg_x1 = x2, arg_x4 = x4, arg_h = Some (smul iphi h),
                             arg_x2 = Some x3, arg_x3 = None,
                             arg_fx2 = Some fx3, arg_fx3 = None\<rparr>, st))"

text \<open>
  \<^verbatim>\<open>_gs\<close> itself: the body, run again on the arguments of each recursive call. The
  recursion need not end (it does not for a negative precision), so the result is an
  option and \<open>None\<close> is a call that never returns. The interpreter's bound on the
  depth of recursion is not a part of the source and is not modelled.
\<close>

partial_function (option) goldensection_gs ::
  "'w objective \<Rightarrow> real \<Rightarrow> gs_args \<Rightarrow> 'w search_state \<Rightarrow> (vec \<times> 'w search_state) option" where
  "goldensection_gs func precision a st =
     (case goldensection_gs_body func precision a st of
        (Return v, st') \<Rightarrow> Some (v, st')
      | (Recurse a', st') \<Rightarrow> goldensection_gs func precision a' st')"

declare goldensection_gs.simps [code]

text \<open>
  The bracketing loop \<^verbatim>\<open>for _ in range(64)\<close>, by the number of iterations left.
  \<open>None\<close> is the loop running out, which takes the \<^verbatim>\<open>else\<close> branch.
  \<^verbatim>\<open>_f(x + t*dx) > _f(x)\<close> evaluates its left operand first.
\<close>

fun bracket_loop ::
  "'w objective \<Rightarrow> vec \<Rightarrow> vec \<Rightarrow> nat \<Rightarrow> int \<Rightarrow> 'w search_state \<Rightarrow> int option \<times> 'w search_state" where
  "bracket_loop func x dx 0 t st = (None, st)"
| "bracket_loop func x dx (Suc n) t st =
     (let (fa, st) = goldensection_f func (vadd x (smul (of_int t) dx)) st;
          (fb, st) = goldensection_f func x st
      in if fa > fb then (Some t, st) else bracket_loop func x dx n (t * 2) st)"

datatype error =
    RuntimeError string
  | ValueError_shape_mismatch "nat \<times> nat" "nat \<times> nat"
  | ValueError_broadcast "nat \<times> nat" "nat \<times> nat"

text \<open>The dictionary \<^verbatim>\<open>goldensection\<close> returns, by its keys \<^verbatim>\<open>'x'\<close>, \<^verbatim>\<open>'t'\<close>, \<^verbatim>\<open>'nfev'\<close>.\<close>

record line_search_result =
  res_x :: vec
  res_t :: "real option"
  res_nfev :: int

definition bracketing_failed :: error where
  "bracketing_failed = RuntimeError
     ''Bracketing minimum failed. Check if func is convex, start point, and search direction.''"

definition gs_first_call :: "vec \<Rightarrow> vec \<Rightarrow> gs_args" where
  \<comment> \<open>the arguments of \<^verbatim>\<open>_gs(p, q)\<close>\<close>
  "gs_first_call p q = \<lparr>arg_x1 = p, arg_x4 = q, arg_h = None, arg_x2 = None, arg_x3 = None,
                         arg_fx2 = None, arg_fx3 = None\<rparr>"

text \<open>
  One call of \<^verbatim>\<open>goldensection\<close>, made when the program around it is in state \<open>w\<close>,
  with the state it ends in. The outer \<open>None\<close> is a call that never returns; \<open>Inl\<close>
  is the exception it raises.
\<close>

definition goldensection_run ::
  "'w objective \<Rightarrow> vec \<Rightarrow> vec \<Rightarrow> real \<Rightarrow> 'w \<Rightarrow>
   ((error + line_search_result) \<times> 'w search_state) option" where
  "goldensection_run func x dx precision w =
     (case bracket_loop func x dx 64 1 \<lparr>nfev = 0, world = w\<rparr> of
        (None, st) \<Rightarrow> Some (Inl bracketing_failed, st)
      | (Some t, st) \<Rightarrow>
          (case goldensection_gs func precision (gs_first_call x (vadd x (smul (of_int t) dx))) st of
             None \<Rightarrow> None
           | Some (xopt, st') \<Rightarrow>
               Some (Inr \<lparr>res_x = xopt,
                          res_t = np_average (np_divide (vsub xopt x) dx),
                          res_nfev = nfev st'\<rparr>, st')))"

definition goldensection ::
  "'w objective \<Rightarrow> vec \<Rightarrow> vec \<Rightarrow> real \<Rightarrow> 'w \<Rightarrow> (error + line_search_result) option" where
  \<comment> \<open>what the caller of \<^verbatim>\<open>goldensection(func, x, dx, precision)\<close> sees\<close>
  "goldensection func x dx precision w = map_option fst (goldensection_run func x dx precision w)"

subsection \<open>Notions the statements about the search use\<close>

text \<open>
  A pure objective under observation: a call returns the value of the function \<open>f\<close> and
  changes nothing but the observer's record, to which it adds the argument of the call.
  The record is then the list of the invocations of the objective, oldest first, whoever
  made them; the search cannot read it.
\<close>

definition spy :: "(vec \<Rightarrow> real) \<Rightarrow> vec list objective" where
  "spy f v seen = (f v, seen @ [v])"

definition ray :: "vec \<Rightarrow> vec \<Rightarrow> real \<Rightarrow> vec" where
  \<comment> \<open>the point \<^verbatim>\<open>x + s*dx\<close>\<close>
  "ray x dx s = vadd x (smul s dx)"

definition gs_h :: "gs_args \<Rightarrow> vec" where
  \<comment> \<open>the value of \<^verbatim>\<open>h\<close> after the first line of \<^verbatim>\<open>_gs\<close>\<close>
  "gs_h a = (case arg_h a of None \<Rightarrow> vsub (arg_x4 a) (arg_x1 a) | Some v \<Rightarrow> v)"

text \<open>
  \<open>gs_calls func precision a0 st0 a st\<close>: the invocation of \<^verbatim>\<open>_gs\<close> with arguments
  \<open>a0\<close> in state \<open>st0\<close> is, or leads through its recursive calls to, the invocation
  with arguments \<open>a\<close> in state \<open>st\<close>.
\<close>

inductive gs_calls ::
  "'w objective \<Rightarrow> real \<Rightarrow> gs_args \<Rightarrow> 'w search_state \<Rightarrow> gs_args \<Rightarrow> 'w search_state \<Rightarrow> bool"
  for func :: "'w objective" and precision :: real and a0 :: gs_args and st0 :: "'w search_state" where
  first: "gs_calls func precision a0 st0 a0 st0"
| recursive: "gs_calls func precision a0 st0 a st \<Longrightarrow>
     goldensection_gs_body func precision a st = (Recurse a', st') \<Longrightarrow>
     gs_calls func precision a0 st0 a' st'"

text \<open>
  The arguments of an invocation describe the bracket from \<open>x + p*dx\<close> to
  \<open>x + (p + w)*dx\<close>: the carried \<^verbatim>\<open>h\<close> is \<open>w*dx\<close>, and a carried interior point
  is the golden-section point of that bracket, with the objective's value there.
\<close>

definition gs_inv :: "(vec \<Rightarrow> real) \<Rightarrow> vec \<Rightarrow> vec \<Rightarrow> real \<Rightarrow> real \<Rightarrow> gs_args \<Rightarrow> bool" where
  "gs_inv func x dx p w a \<longleftrightarrow>
     arg_x1 a = ray x dx p \<and> arg_x4 a = ray x dx (p + w) \<and>
     (arg_h a = None \<or> arg_h a = Some (smul w dx)) \<and>
     (arg_x2 a = None \<and> arg_fx2 a = None \<or>
      arg_x2 a = Some (ray x dx (p + iphi2 * w)) \<and>
      arg_fx2 a = Some (func (ray x dx (p + iphi2 * w)))) \<and>
     (arg_x3 a = None \<and> arg_fx3 a = None \<or>
      arg_x3 a = Some (ray x dx (p + iphi * w)) \<and>
      arg_fx3 a = Some (func (ray x dx (p + iphi * w))))"

text \<open>
  What an invocation of \<^verbatim>\<open>_gs\<close> was handed is genuine: an interior point comes with
  the value of the objective \<open>func\<close> at that point, and the point is among the
  invocations \<open>seen\<close> of the objective; an interior point left out comes with no value.
\<close>

definition gs_carried :: "(vec \<Rightarrow> real) \<Rightarrow> gs_args \<Rightarrow> vec list \<Rightarrow> bool" where
  "gs_carried func a seen \<longleftrightarrow>
     (case arg_x2 a of None \<Rightarrow> arg_fx2 a = None
      | Some v \<Rightarrow> arg_fx2 a = Some (func v) \<and> v \<in> set seen) \<and>
     (case arg_x3 a of None \<Rightarrow> arg_fx3 a = None
      | Some v \<Rightarrow> arg_fx3 a = Some (func v) \<and> v \<in> set seen)"

text \<open>
  The objective is unimodal along the ray \<open>x + s*dx\<close>, \<open>s \<ge> 0\<close>, with its one
  minimum at \<open>s = ts\<close>: strictly decreasing up to \<open>ts\<close>, strictly increasing after it.
\<close>

definition unimodal_along :: "(vec \<Rightarrow> real) \<Rightarrow> vec \<Rightarrow> vec \<Rightarrow> real \<Rightarrow> bool" where
  "unimodal_along func x dx ts \<longleftrightarrow>
     0 \<le> ts \<and>
     (\<forall>s s'. 0 \<le> s \<and> s < s' \<and> s' \<le> ts \<longrightarrow> func (ray x dx s') < func (ray x dx s)) \<and>
     (\<forall>s s'. ts \<le> s \<and> s < s' \<longrightarrow> func (ray x dx s) < func (ray x dx s'))"

definition bracket_calls :: "vec \<Rightarrow> vec \<Rightarrow> int \<Rightarrow> nat \<Rightarrow> vec list" where
  \<comment> \<open>what \<open>k\<close> iterations of the bracketing loop, started at \<open>t\<close>, pass to the objective\<close>
  "bracket_calls x dx t k = concat (map (\<lambda>j. [vadd x (smul (of_int (t * 2 ^ j)) dx), x]) [0..<k])"

definition pack_result :: "vec \<Rightarrow> vec \<Rightarrow> vec \<times> 'w search_state \<Rightarrow> (error + line_search_result) \<times> 'w search_state" where
  \<comment> \<open>the dictionary \<^verbatim>\<open>goldensection\<close> builds from what \<^verbatim>\<open>_gs\<close> returned\<close>
  "pack_result x dx = (\<lambda>(xopt, st').
     (Inr \<lparr>res_x = xopt, res_t = np_average (np_divide (vsub xopt x) dx), res_nfev = nfev st'\<rparr>, st'))"

section \<open>The least-squares instance (\<^verbatim>\<open>src/least_squares.py\<close>, class \<^verbatim>\<open>least_squares\<close>)\<close>

text \<open>
  \<^verbatim>\<open>A\<close> and \<^verbatim>\<open>b\<close> are two-dimensional numpy arrays, as the docstring of the
  constructor has them: a shape and the entries, row by row. The argument of a call is
  either a numpy array of any shape or a flat Python sequence of numbers. The entries are
  exact reals: the rounding of doubles and the wrap-around of integer arrays are outside
  the model.
\<close>

record matrix =
  nrows :: nat
  ncols :: nat
  entries :: "real list"

record ndarray =
  shape :: "nat list"
  data :: "real list"

datatype pyarg = PyList "real list" | NdArray ndarray

record least_squares =
  self_A :: matrix
  self_b :: matrix

definition mshape :: "matrix \<Rightarrow> nat \<times> nat" where
  \<comment> \<open>\<^verbatim>\<open>.shape\<close>\<close>
  "mshape M = (nrows M, ncols M)"

definition reshape_column :: "real list \<Rightarrow> matrix" where
  \<comment> \<open>\<^verbatim>\<open>.reshape(-1, 1)\<close> of an array with these elements\<close>
  "reshape_column xs = \<lparr>nrows = length xs, ncols = 1, entries = xs\<rparr>"

definition matmul :: "matrix \<Rightarrow> matrix \<Rightarrow> matrix" where
  \<comment> \<open>\<^verbatim>\<open>P @ Q\<close> where \<^verbatim>\<open>Q\<close> has as many rows as \<^verbatim>\<open>P\<close> has columns\<close>
  "matmul P Q =
     \<lparr>nrows = nrows P, ncols = ncols Q,
      entries = concat (map (\<lambda>i. map (\<lambda>l.
          (\<Sum>j\<leftarrow>[0..<ncols P]. entries P ! (i * ncols P + j) * entries Q ! (j * ncols Q + l)))
          [0..<ncols Q]) [0..<nrows P])\<rparr>"

definition broadcast_dim :: "nat \<Rightarrow> nat \<Rightarrow> nat option" where
  \<comment> \<open>numpy's broadcasting of one axis: equal lengths, or one of them 1\<close>
  "broadcast_dim m k = (if m = k then Some m else if m = 1 then Some k
                        else if k = 1 then Some m else None)"

definition broadcast_at :: "matrix \<Rightarrow> nat \<Rightarrow> nat \<Rightarrow> real" where
  \<comment> \<open>the entry a broadcast array shows at row \<open>i\<close>, column \<open>j\<close>\<close>
  "broadcast_at M i j =
     entries M ! ((if nrows M = 1 then 0 else i) * ncols M + (if ncols M = 1 then 0 else j))"

definition np_subtract :: "matrix \<Rightarrow> matrix \<Rightarrow> error + matrix" where
  \<comment> \<open>\<^verbatim>\<open>P - Q\<close> on two-dimensional arrays\<close>
  "np_subtract P Q =
     (case (broadcast_dim (nrows P) (nrows Q), broadcast_dim (ncols P) (ncols Q)) of
        (Some r, Some c) \<Rightarrow>
          Inr \<lparr>nrows = r, ncols = c,
               entries = concat (map (\<lambda>i. map (\<lambda>j. broadcast_at P i j - broadcast_at Q i j)
                                          [0..<c]) [0..<r])\<rparr>
      | _ \<Rightarrow> Inl (ValueError_broadcast (mshape P) (mshape Q)))"

definition least_squares_init :: "matrix \<Rightarrow> matrix \<Rightarrow> least_squares" where
  \<comment> \<open>\<^verbatim>\<open>__init__\<close>: \<^verbatim>\<open>self.A = A; self.b = b\<close>\<close>
  "least_squares_init A b = \<lparr>self_A = A, self_b = b\<rparr>"

definition as_column :: "pyarg \<Rightarrow> matrix" where
  \<comment> \<open>the first statement of \<^verbatim>\<open>__call__\<close>: the local \<^verbatim>\<open>_x\<close>\<close>
  "as_column x =
     (case x of
        PyList xs \<Rightarrow> reshape_column xs
      | NdArray a \<Rightarrow>
          if length (shape a) \<noteq> 2 \<or> shape a ! 1 \<noteq> 1 then reshape_column (data a)
          else \<lparr>nrows = shape a ! 0, ncols = shape a ! 1, entries = data a\<rparr>)"

definition least_squares_call :: "least_squares \<Rightarrow> pyarg \<Rightarrow> error + real" where
  \<comment> \<open>\<^verbatim>\<open>__call__\<close>\<close>
  "least_squares_call self x =
     (let xcol = as_column x
      in if nrows xcol \<noteq> ncols (self_A self)
         then Inl (ValueError_shape_mismatch (mshape (self_A self)) (mshape xcol))
         else (case np_subtract (matmul (self_A self) xcol) (self_b self) of
                 Inl e \<Rightarrow> Inl e
               | Inr r \<Rightarrow> Inr ((np_linalg_norm (entries r))\<^sup>2)))"

definition arg_values :: "pyarg \<Rightarrow> real list" where
  \<comment> \<open>the numbers an argument holds, in order\<close>
  "arg_values x = (case x of PyList xs \<Rightarrow> xs | NdArray a \<Rightarrow> data a)"

definition wf_arg :: "pyarg \<Rightarrow> bool" where
  \<comment> \<open>a numpy array holds as many numbers as its shape says\<close>
  "wf_arg x = (case x of PyList xs \<Rightarrow> True | NdArray a \<Rightarrow> prod_list (shape a) = length (data a))"

definition residual :: "matrix \<Rightarrow> real list \<Rightarrow> matrix \<Rightarrow> real list" where
  \<comment> \<open>the entries of \<open>A*xs - b\<close> for a column \<open>b\<close>\<close>
  "residual A xs b =
     map (\<lambda>i. (\<Sum>j\<leftarrow>[0..<ncols A]. entries A ! (i * ncols A + j) * xs ! j) - entries b ! i)
       [0..<nrows A]"

section \<open>Properties of the line search\<close>

subsection \<open>Arithmetic of points on a ray\<close>

lemma length_vadd [simp]: "length (vadd a b) = min (length a) (length b)"
  by (simp add: vadd_def)
lemma length_vsub [simp]: "length (vsub a b) = min (length a) (length b)"
  by (simp add: vsub_def)
lemma length_smul [simp]: "length (smul c a) = length a"
  by (simp add: smul_def)
lemma length_sdiv [simp]: "length (sdiv a c) = length a"
  by (simp add: sdiv_def)

lemma nth_vadd [simp]: "i < length a \<Longrightarrow> i < length b \<Longrightarrow> vadd a b ! i = a ! i + b ! i"
  by (simp add: vadd_def)
lemma nth_vsub [simp]: "i < length a \<Longrightarrow> i < length b \<Longrightarrow> vsub a b ! i = a ! i - b ! i"
  by (simp add: vsub_def)
lemma nth_smul [simp]: "i < length a \<Longrightarrow> smul c a ! i = c * a ! i"
  by (simp add: smul_def)
lemma nth_sdiv [simp]: "i < length a \<Longrightarrow> sdiv a c ! i = a ! i / c"
  by (simp add: sdiv_def)

lemma length_ray [simp]: "length (ray x dx s) = min (length x) (length dx)"
  by (simp add: ray_def)

lemma nth_ray [simp]: "i < length x \<Longrightarrow> i < length dx \<Longrightarrow> ray x dx s ! i = x ! i + s * dx ! i"
  by (simp add: ray_def)

lemma ray_zero: "length dx = length x \<Longrightarrow> ray x dx 0 = x"
  by (rule nth_equalityI) simp_all

lemma vsub_ray_ray: "length dx = length x \<Longrightarrow> vsub (ray x dx q) (ray x dx p) = smul (q - p) dx"
  by (rule nth_equalityI) (simp_all add: algebra_simps)

lemma vsub_ray_start: "length dx = length x \<Longrightarrow> vsub (ray x dx q) x = smul q dx"
  by (rule nth_equalityI) (simp_all add: algebra_simps)

lemma vadd_ray_smul: "length dx = length x \<Longrightarrow> vadd (ray x dx p) (smul c dx) = ray x dx (p + c)"
  by (rule nth_equalityI) (simp_all add: algebra_simps)

lemma midpoint_ray: "length dx = length x \<Longrightarrow> sdiv (vadd (ray x dx p) (ray x dx q)) 2 = ray x dx ((p + q) / 2)"
  by (rule nth_equalityI) (simp_all add: algebra_simps add_divide_distrib)

lemma smul_smul: "smul c (smul w v) = smul (c * w) v"
  by (simp add: smul_def)

lemma sum_list_sq_smul: "(\<Sum>u\<leftarrow>smul c v. u\<^sup>2) = c\<^sup>2 * (\<Sum>u\<leftarrow>v. u\<^sup>2)"
  by (induction v) (simp_all add: smul_def power_mult_distrib algebra_simps)

lemma norm_smul: "np_linalg_norm (smul c v) = \<bar>c\<bar> * np_linalg_norm v"
  by (simp add: np_linalg_norm_def sum_list_sq_smul real_sqrt_mult)

lemma norm_nonneg: "0 \<le> np_linalg_norm v"
  by (auto simp: np_linalg_norm_def intro!: sum_list_nonneg)

subsection \<open>The two constants\<close>

lemma sqrt5_bounds: "2 < sqrt 5" "sqrt 5 < 3"
  by (rule real_less_rsqrt, simp) (rule real_less_lsqrt, simp_all)

lemma iphi_pos: "0 < iphi" and iphi_less_one: "iphi < 1"
  using sqrt5_bounds by (simp_all add: iphi_def)

lemma iphi2_pos: "0 < iphi2"
  using sqrt5_bounds by (simp add: iphi2_def)

lemma iphi_sq: "iphi * iphi = iphi2"
proof -
  have "sqrt 5 * sqrt 5 = 5" by simp
  then show ?thesis by (simp add: iphi_def iphi2_def field_simps)
qed

lemma iphi_plus_iphi2: "iphi + iphi2 = 1"
  by (simp add: iphi_def iphi2_def field_simps)

lemma iphi2_less_iphi: "iphi2 < iphi"
  using sqrt5_bounds by (simp add: iphi_def iphi2_def)


subsection \<open>One execution of the body of \<^verbatim>\<open>_gs\<close>\<close>

lemma goldensection_f_spy:
  "goldensection_f (spy func) v st = (func v, st\<lparr>nfev := nfev st + 1, world := world st @ [v]\<rparr>)"
  by (simp add: goldensection_f_def spy_def)

lemma gs_h_inv: "length dx = length x \<Longrightarrow> gs_inv func x dx p w a \<Longrightarrow> gs_h a = smul w dx"
  by (auto simp: gs_inv_def gs_h_def vsub_ray_ray)

lemma gs_body_Return:
  "np_linalg_norm (gs_h a) \<le> precision \<Longrightarrow>
   goldensection_gs_body func precision a st = (Return (sdiv (vadd (arg_x1 a) (arg_x4 a)) 2), st)"
  by (simp add: goldensection_gs_body_def gs_h_def)

lemma gs_body_Return_iff:
  "(\<exists>v st'. goldensection_gs_body func precision a st = (Return v, st')) \<longleftrightarrow>
   np_linalg_norm (gs_h a) \<le> precision"
  by (auto simp: goldensection_gs_body_def gs_h_def Let_def split: prod.splits)

lemma gs_body_Recurse_h:
  "goldensection_gs_body func precision a st = (Recurse a', st') \<Longrightarrow>
   \<not> np_linalg_norm (gs_h a) \<le> precision \<and> arg_h a' = Some (smul iphi (gs_h a))"
  by (auto simp: goldensection_gs_body_def gs_h_def Let_def split: prod.splits if_splits)

lemma gs_body_step:
  assumes len: "length dx = length x"
    and inv: "gs_inv func x dx p w a"
    and rec: "goldensection_gs_body (spy func) precision a st = (Recurse a', st')"
  shows "a' = (if func (ray x dx (p + iphi2 * w)) < func (ray x dx (p + iphi * w))
               then \<lparr>arg_x1 = ray x dx p, arg_x4 = ray x dx (p + iphi * w),
                     arg_h = Some (smul (iphi * w) dx), arg_x2 = None,
                     arg_x3 = Some (ray x dx (p + iphi2 * w)), arg_fx2 = None,
                     arg_fx3 = Some (func (ray x dx (p + iphi2 * w)))\<rparr>
               else \<lparr>arg_x1 = ray x dx (p + iphi2 * w), arg_x4 = ray x dx (p + w),
                     arg_h = Some (smul (iphi * w) dx), arg_x2 = Some (ray x dx (p + iphi * w)),
                     arg_x3 = None, arg_fx2 = Some (func (ray x dx (p + iphi * w))),
                     arg_fx3 = None\<rparr>)"
  using inv rec len unfolding gs_inv_def goldensection_gs_body_def
  by (auto simp: Let_def goldensection_f_spy vadd_ray_smul vsub_ray_ray smul_smul
      split: if_splits option.splits prod.splits)


lemma golden_left: "iphi * (iphi * w) = iphi2 * w"
  using iphi_sq by (simp flip: mult.assoc)

lemma golden_right: "p + iphi2 * w + iphi * w = p + w"
proof -
  have "(iphi2 + iphi) * w = w"
    using iphi_plus_iphi2 by (simp add: add.commute)
  then show ?thesis by (simp add: algebra_simps)
qed

lemma golden_carry: "p + iphi2 * w + iphi2 * (iphi * w) = p + iphi * w"
proof -
  have split: "iphi2 * w = w - iphi * w"
    using golden_right [of 0 w] by simp
  have "iphi2 * (iphi * w) = iphi * (iphi2 * w)" by simp
  also have "\<dots> = iphi * w - iphi * (iphi * w)"
    unfolding split by (simp add: right_diff_distrib)
  also have "\<dots> = iphi * w - iphi2 * w"
    unfolding golden_left ..
  finally show ?thesis by simp
qed

lemmas golden_identities = golden_left golden_right golden_carry

lemma gs_inv_step:
  assumes len: "length dx = length x"
    and inv: "gs_inv func x dx p w a"
    and rec: "goldensection_gs_body (spy func) precision a st = (Recurse a', st')"
  shows "gs_inv func x dx
           (if func (ray x dx (p + iphi2 * w)) < func (ray x dx (p + iphi * w)) then p
            else p + iphi2 * w) (iphi * w) a'"
  unfolding gs_body_step [OF len inv rec]
  by (simp add: gs_inv_def golden_identities)

subsection \<open>Evaluations along the recursion\<close>

lemma gs_body_counts:
  "goldensection_gs_body (spy func) precision a st = (act, st') \<Longrightarrow>
   \<exists>cs. world st' = world st @ cs \<and> nfev st' = nfev st + int (length cs)"
  by (auto simp: goldensection_gs_body_def Let_def goldensection_f_spy
      split: if_splits option.splits prod.splits)

lemma gs_calls_counts:
  "gs_calls (spy func) precision a0 st0 a st \<Longrightarrow>
   \<exists>cs. world st = world st0 @ cs \<and> nfev st = nfev st0 + int (length cs)"
proof (induction rule: gs_calls.induct)
  case first
  show ?case by simp
next
  case (recursive a st a' st')
  from recursive.IH obtain cs where
    cs: "world st = world st0 @ cs" "nfev st = nfev st0 + int (length cs)" by blast
  from gs_body_counts [OF recursive.hyps(2)] obtain ds where
    ds: "world st' = world st @ ds" "nfev st' = nfev st + int (length ds)" by blast
  from cs ds have "world st' = world st0 @ (cs @ ds) \<and> nfev st' = nfev st0 + int (length (cs @ ds))"
    by simp
  then show ?case by blast
qed

subsection \<open>The invocation that returns, and termination\<close>

lemma gs_final_call_aux:
  assumes run: "goldensection_gs func precision a st = Some r"
  shows "\<forall>a0 st0. gs_calls func precision a0 st0 a st \<longrightarrow>
           (\<exists>af. gs_calls func precision a0 st0 af (snd r) \<and>
              goldensection_gs_body func precision af (snd r) = (Return (fst r), snd r))"
proof (rule goldensection_gs.raw_induct
    [where P = "\<lambda>func precision a st r. \<forall>a0 st0. gs_calls func precision a0 st0 a st \<longrightarrow>
           (\<exists>af. gs_calls func precision a0 st0 af (snd r) \<and>
              goldensection_gs_body func precision af (snd r) = (Return (fst r), snd r))",
     OF _ run])
  fix gs :: "'w objective \<Rightarrow> real \<Rightarrow> gs_args \<Rightarrow> 'w search_state \<Rightarrow> (vec \<times> 'w search_state) option"
    and func precision a st r
  assume IH: "\<And>func precision a st r. gs func precision a st = Some r \<Longrightarrow>
      \<forall>a0 st0. gs_calls func precision a0 st0 a st \<longrightarrow>
           (\<exists>af. gs_calls func precision a0 st0 af (snd r) \<and>
              goldensection_gs_body func precision af (snd r) = (Return (fst r), snd r))"
    and body: "(case goldensection_gs_body func precision a st of
                  (Return v, st') \<Rightarrow> Some (v, st')
                | (Recurse a', st') \<Rightarrow> gs func precision a' st') = Some r"
  show "\<forall>a0 st0. gs_calls func precision a0 st0 a st \<longrightarrow>
           (\<exists>af. gs_calls func precision a0 st0 af (snd r) \<and>
              goldensection_gs_body func precision af (snd r) = (Return (fst r), snd r))"
  proof (intro allI impI)
    fix a0 st0
    assume reach: "gs_calls func precision a0 st0 a st"
    obtain act st' where Pair: "goldensection_gs_body func precision a st = (act, st')"
      by (cases "goldensection_gs_body func precision a st")
    show "\<exists>af. gs_calls func precision a0 st0 af (snd r) \<and>
              goldensection_gs_body func precision af (snd r) = (Return (fst r), snd r)"
    proof (cases act)
      case (Return v)
      with Pair body have r: "r = (v, st')" by simp
      from Pair Return have "np_linalg_norm (gs_h a) \<le> precision"
        using gs_body_Return_iff by blast
      from gs_body_Return [OF this, of func st] Pair Return have "st' = st" by simp
      with r Pair Return reach show ?thesis by (intro exI [of _ a]) simp
    next
      case (Recurse a')
      with Pair body have run': "gs func precision a' st' = Some r" by simp
      from reach Pair Recurse have "gs_calls func precision a0 st0 a' st'"
        by (auto intro: gs_calls.recursive)
      with IH [OF run'] show ?thesis by blast
    qed
  qed
qed

lemma gs_final_call:
  assumes "goldensection_gs func precision a st = Some (v, st')"
  shows "\<exists>af. gs_calls func precision a st af st' \<and>
              goldensection_gs_body func precision af st' = (Return v, st')"
  using gs_final_call_aux [OF assms] gs_calls.first [of func precision a st] by auto

lemma gs_terminates_aux:
  "np_linalg_norm (gs_h a) * iphi ^ n \<le> precision \<Longrightarrow>
   \<exists>r. goldensection_gs func precision a st = Some r"
proof (induction n arbitrary: a st)
  case 0
  then have "np_linalg_norm (gs_h a) \<le> precision" by simp
  from gs_body_Return [OF this, of func st] show ?case
    by (subst goldensection_gs.simps) simp
next
  case (Suc n)
  show ?case
  proof (cases "goldensection_gs_body func precision a st")
    case (Pair act st')
    show ?thesis
    proof (cases act)
      case (Return v)
      with Pair show ?thesis by (subst goldensection_gs.simps) simp
    next
      case (Recurse a')
      with Pair have "arg_h a' = Some (smul iphi (gs_h a))"
        using gs_body_Recurse_h by blast
      then have "gs_h a' = smul iphi (gs_h a)" by (simp add: gs_h_def)
      then have shrink: "np_linalg_norm (gs_h a') = np_linalg_norm (gs_h a) * iphi"
        using iphi_pos by (simp add: norm_smul)
      have "np_linalg_norm (gs_h a') * iphi ^ n = np_linalg_norm (gs_h a) * iphi ^ Suc n"
        unfolding shrink by (simp add: mult.assoc)
      with Suc.prems have "np_linalg_norm (gs_h a') * iphi ^ n \<le> precision" by (simp only:)
      from Suc.IH [OF this, of st'] Pair Recurse show ?thesis
        by (subst goldensection_gs.simps) simp
    qed
  qed
qed

lemma gs_terminates:
  assumes "0 < precision"
  shows "\<exists>r. goldensection_gs func precision a st = Some r"
proof -
  have "\<exists>n. np_linalg_norm (gs_h a) * iphi ^ n \<le> precision"
  proof (cases "np_linalg_norm (gs_h a) = 0")
    case True
    with assms show ?thesis by simp
  next
    case False
    with norm_nonneg [of "gs_h a"] have pos: "0 < np_linalg_norm (gs_h a)" by simp
    with assms have "0 < precision / np_linalg_norm (gs_h a)" by simp
    from real_arch_pow_inv [OF this iphi_less_one] obtain n where
      "iphi ^ n < precision / np_linalg_norm (gs_h a)" ..
    with pos have "np_linalg_norm (gs_h a) * iphi ^ n \<le> precision"
      by (simp add: field_simps)
    then show ?thesis ..
  qed
  then show ?thesis using gs_terminates_aux by blast
qed


subsection \<open>The bracket keeps the minimiser\<close>

lemma unimodal_keep_left:
  assumes "unimodal_along func x dx ts" "0 \<le> s" "s < s'"
    and "func (ray x dx s) < func (ray x dx s')"
  shows "ts \<le> s'"
proof (rule ccontr)
  assume "\<not> ts \<le> s'"
  with assms(1-3) have "func (ray x dx s') < func (ray x dx s)"
    by (simp add: unimodal_along_def)
  with assms(4) show False by simp
qed

lemma unimodal_keep_right:
  assumes "unimodal_along func x dx ts" "s < s'"
    and "\<not> func (ray x dx s) < func (ray x dx s')"
  shows "s \<le> ts"
proof (rule ccontr)
  assume "\<not> s \<le> ts"
  with assms(1,2) have "func (ray x dx s) < func (ray x dx s')"
    by (simp add: unimodal_along_def)
  with assms(3) show False by simp
qed

lemma gs_calls_inv:
  assumes len: "length dx = length x"
    and inv0: "gs_inv func x dx p0 w0 a0"
    and reach: "gs_calls (spy func) precision a0 st0 a st"
  shows "\<exists>p w. gs_inv func x dx p w a \<and> (0 < w0 \<longrightarrow> 0 < w) \<and>
           (unimodal_along func x dx ts \<and> 0 \<le> p0 \<and> 0 < w0 \<and> p0 \<le> ts \<and> ts \<le> p0 + w0 \<longrightarrow>
              0 \<le> p \<and> p \<le> ts \<and> ts \<le> p + w)"
  using reach
proof (induction rule: gs_calls.induct)
  case first
  from inv0 show ?case by blast
next
  case (recursive a st a' st')
  from recursive.IH obtain p w where
    inv: "gs_inv func x dx p w a" and pos: "0 < w0 \<longrightarrow> 0 < w" and
    uni: "unimodal_along func x dx ts \<and> 0 \<le> p0 \<and> 0 < w0 \<and> p0 \<le> ts \<and> ts \<le> p0 + w0 \<longrightarrow>
              0 \<le> p \<and> p \<le> ts \<and> ts \<le> p + w"
    by blast
  let ?left = "func (ray x dx (p + iphi2 * w)) < func (ray x dx (p + iphi * w))"
  let ?p' = "if ?left then p else p + iphi2 * w"
  from gs_inv_step [OF len inv recursive.hyps(2)]
  have inv': "gs_inv func x dx ?p' (iphi * w) a'" .
  have pos': "0 < w0 \<longrightarrow> 0 < iphi * w"
    using pos iphi_pos by simp
  have uni': "0 \<le> ?p' \<and> ?p' \<le> ts \<and> ts \<le> ?p' + iphi * w"
    if u: "unimodal_along func x dx ts" and b: "0 \<le> p0" "0 < w0" "p0 \<le> ts" "ts \<le> p0 + w0"
  proof -
    from uni u b have in_old: "0 \<le> p" "p \<le> ts" "ts \<le> p + w" by simp_all
    from pos b have w: "0 < w" by simp
    with iphi2_pos have lo: "p < p + iphi2 * w" by simp
    from w iphi2_less_iphi have lt: "p + iphi2 * w < p + iphi * w" by simp
    show ?thesis
    proof (cases ?left)
      case True
      from unimodal_keep_left [OF u _ lt True] in_old lo have "ts \<le> p + iphi * w" by simp
      with True in_old show ?thesis by simp
    next
      case False
      from unimodal_keep_right [OF u lt False] have "p + iphi2 * w \<le> ts" .
      with False in_old lo show ?thesis by (simp add: golden_right)
    qed
  qed
  from inv' pos' uni' show ?case by blast
qed

lemma golden_rest: "w - iphi2 * w = iphi * w"
  using golden_right [of 0 w] by simp

lemma ray_one_vsub: "length q = length p \<Longrightarrow> ray p (vsub q p) 1 = q"
  by (rule nth_equalityI) simp_all

lemma gs_inv_first_call:
  "length dx = length x \<Longrightarrow> gs_inv func x dx 0 w (gs_first_call x (ray x dx w))"
  by (simp add: gs_inv_def gs_first_call_def ray_zero)

lemma gs_body_Recurse_ex:
  "\<not> np_linalg_norm (gs_h a) \<le> precision \<Longrightarrow>
   \<exists>a' st'. goldensection_gs_body func precision a st = (Recurse a', st')"
  by (auto simp: goldensection_gs_body_def gs_h_def Let_def split: prod.splits)

lemma gs_first_call_two_evaluations:
  "goldensection_gs_body (spy func) precision (gs_first_call p q) st = (Recurse a, st') \<Longrightarrow>
   nfev st' = nfev st + 2 \<and>
   world st' = world st @ [vadd p (smul iphi2 (vsub q p)), vadd p (smul iphi (vsub q p))]"
  by (auto simp: goldensection_gs_body_def gs_first_call_def Let_def goldensection_f_spy
      split: if_splits prod.splits)

lemma unit_bracket_width: "vsub [1] [0] = [1]" "np_linalg_norm [1] = 1"
  by (simp_all add: vsub_def np_linalg_norm_def)

lemma unit_bracket_goes_on:
  "\<exists>a st. goldensection_gs_body func 0 (gs_first_call [0] [1]) st0 = (Recurse a, st)"
  by (rule gs_body_Recurse_ex)
    (simp add: gs_h_def gs_first_call_def vsub_def np_linalg_norm_def)

lemma shrunk_bracket_goes_on:
  assumes "goldensection_gs_body func 0 (gs_first_call [0] [1]) st0 = (Recurse a, st)"
  shows "\<exists>a' st'. goldensection_gs_body func 0 a st = (Recurse a', st')"
proof (rule gs_body_Recurse_ex)
  from gs_body_Recurse_h [OF assms] have "gs_h a = smul iphi [1]"
    by (simp add: gs_h_def gs_first_call_def vsub_def)
  then show "\<not> np_linalg_norm (gs_h a) \<le> 0"
    using iphi_pos by (simp add: norm_smul unit_bracket_width)
qed

subsection \<open>The bracket shrinks by the golden ratio\<close>

text \<open>
  Claim C3. Take any invocation of \<^verbatim>\<open>_gs\<close> that the first call \<^verbatim>\<open>_gs(p, q)\<close> leads
  to, \<open>p\<close> and \<open>q\<close> of the same shape, in exact arithmetic. The width \<^verbatim>\<open>h\<close> it works
  with is \<open>x4 - x1\<close>, and an interior point it was handed is the golden-section point of
  its bracket. If it does not return, the call it makes has the bracket \<open>[x1, x3]\<close> or
  \<open>[x2, x4]\<close>, carries that bracket's width as \<^verbatim>\<open>h\<close>, and the new width is \<open>iphi\<close>
  times the old one, as a vector and in norm.
\<close>

theorem gs_bracket_shrinks_by_iphi:
  assumes len: "length q = length p"
    and reach: "gs_calls (spy func) precision (gs_first_call p q) st0 a st"
  shows "gs_h a = vsub (arg_x4 a) (arg_x1 a) \<and>
         (\<forall>v. arg_x2 a = Some v \<longrightarrow> v = vadd (arg_x1 a) (smul iphi2 (gs_h a))) \<and>
         (\<forall>v. arg_x3 a = Some v \<longrightarrow> v = vadd (arg_x1 a) (smul iphi (gs_h a))) \<and>
         (\<forall>a' st'. goldensection_gs_body (spy func) precision a st = (Recurse a', st') \<longrightarrow>
            (arg_x1 a' = arg_x1 a \<and> arg_x4 a' = vadd (arg_x1 a) (smul iphi (gs_h a)) \<or>
             arg_x1 a' = vadd (arg_x1 a) (smul iphi2 (gs_h a)) \<and> arg_x4 a' = arg_x4 a) \<and>
            arg_h a' = Some (vsub (arg_x4 a') (arg_x1 a')) \<and>
            vsub (arg_x4 a') (arg_x1 a') = smul iphi (vsub (arg_x4 a) (arg_x1 a)) \<and>
            np_linalg_norm (vsub (arg_x4 a') (arg_x1 a')) =
              iphi * np_linalg_norm (vsub (arg_x4 a) (arg_x1 a)))"
proof -
  let ?d = "vsub q p"
  from len have len': "length ?d = length p" by simp
  have "gs_inv func p ?d 0 1 (gs_first_call p (ray p ?d 1))"
    by (rule gs_inv_first_call [OF len'])
  then have inv0: "gs_inv func p ?d 0 1 (gs_first_call p q)"
    by (simp add: ray_one_vsub [OF len])
  from gs_calls_inv [OF len' inv0 reach, of 0] obtain s w where
    inv: "gs_inv func p ?d s w a" by blast
  then have x1: "arg_x1 a = ray p ?d s" and x4: "arg_x4 a = ray p ?d (s + w)"
    by (simp_all add: gs_inv_def)
  have h: "gs_h a = smul w ?d" by (rule gs_h_inv [OF len' inv])
  have width: "vsub (arg_x4 a) (arg_x1 a) = smul w ?d"
    by (simp add: x1 x4 vsub_ray_ray [OF len'])
  have pt2: "vadd (arg_x1 a) (smul iphi2 (gs_h a)) = ray p ?d (s + iphi2 * w)"
    and pt3: "vadd (arg_x1 a) (smul iphi (gs_h a)) = ray p ?d (s + iphi * w)"
    by (simp_all add: x1 h smul_smul vadd_ray_smul [OF len'])
  have carried2: "\<forall>v. arg_x2 a = Some v \<longrightarrow> v = vadd (arg_x1 a) (smul iphi2 (gs_h a))"
    using inv unfolding pt2 by (auto simp: gs_inv_def)
  have carried3: "\<forall>v. arg_x3 a = Some v \<longrightarrow> v = vadd (arg_x1 a) (smul iphi (gs_h a))"
    using inv unfolding pt3 by (auto simp: gs_inv_def)
  have step: "(arg_x1 a' = arg_x1 a \<and> arg_x4 a' = vadd (arg_x1 a) (smul iphi (gs_h a)) \<or>
             arg_x1 a' = vadd (arg_x1 a) (smul iphi2 (gs_h a)) \<and> arg_x4 a' = arg_x4 a) \<and>
            arg_h a' = Some (vsub (arg_x4 a') (arg_x1 a')) \<and>
            vsub (arg_x4 a') (arg_x1 a') = smul iphi (vsub (arg_x4 a) (arg_x1 a)) \<and>
            np_linalg_norm (vsub (arg_x4 a') (arg_x1 a')) =
              iphi * np_linalg_norm (vsub (arg_x4 a) (arg_x1 a))"
    if rec: "goldensection_gs_body (spy func) precision a st = (Recurse a', st')" for a' st'
  proof -
    note a' = gs_body_step [OF len' inv rec]
    have new_width: "vsub (arg_x4 a') (arg_x1 a') = smul (iphi * w) ?d"
      unfolding a' by (simp add: vsub_ray_ray [OF len'] golden_rest)
    have bracket: "arg_x1 a' = arg_x1 a \<and> arg_x4 a' = vadd (arg_x1 a) (smul iphi (gs_h a)) \<or>
             arg_x1 a' = vadd (arg_x1 a) (smul iphi2 (gs_h a)) \<and> arg_x4 a' = arg_x4 a"
      unfolding pt2 pt3 unfolding a' by (simp add: x1 x4)
    have carried: "arg_h a' = Some (vsub (arg_x4 a') (arg_x1 a'))"
      unfolding new_width unfolding a' by simp
    have "np_linalg_norm (vsub (arg_x4 a') (arg_x1 a')) =
            iphi * np_linalg_norm (vsub (arg_x4 a) (arg_x1 a))"
      unfolding new_width width using iphi_pos
      by (simp add: norm_smul abs_mult)
    with bracket carried new_width width show ?thesis
      by (simp add: smul_smul)
  qed
  from h width have "gs_h a = vsub (arg_x4 a) (arg_x1 a)" by simp
  with carried2 carried3 step show ?thesis by blast
qed

theorem gs_bracket_shrinks_by_iphi_witness:
  "\<exists>a st a' st'.
     goldensection_gs_body (spy (\<lambda>v. 0)) 0 (gs_first_call [0] [1]) \<lparr>nfev = 0, world = []\<rparr> = (Recurse a, st) \<and>
     goldensection_gs_body (spy (\<lambda>v. 0)) 0 a st = (Recurse a', st') \<and>
     arg_h a = Some (vsub (arg_x4 a) (arg_x1 a)) \<and>
     np_linalg_norm (vsub (arg_x4 a) (arg_x1 a)) = iphi \<and>
     np_linalg_norm (vsub (arg_x4 a') (arg_x1 a')) = iphi * iphi"
proof -
  let ?f = "\<lambda>v::vec. 0::real" and ?s = "\<lparr>nfev = 0, world = []\<rparr>"
  obtain a st where b1: "goldensection_gs_body (spy ?f) 0 (gs_first_call [0] [1]) ?s = (Recurse a, st)"
    using unit_bracket_goes_on by blast
  obtain a' st' where b2: "goldensection_gs_body (spy ?f) 0 a st = (Recurse a', st')"
    using shrunk_bracket_goes_on [OF b1] by blast
  have len: "length [1::real] = length [0::real]" by simp
  have r0: "gs_calls (spy ?f) 0 (gs_first_call [0] [1]) ?s (gs_first_call [0] [1]) ?s"
    by (rule gs_calls.first)
  have r1: "gs_calls (spy ?f) 0 (gs_first_call [0] [1]) ?s a st"
    by (rule gs_calls.recursive [OF r0 b1])
  from gs_bracket_shrinks_by_iphi [OF len r0] b1
  have "arg_h a = Some (vsub (arg_x4 a) (arg_x1 a)) \<and>
    np_linalg_norm (vsub (arg_x4 a) (arg_x1 a)) =
      iphi * np_linalg_norm (vsub (arg_x4 (gs_first_call [0] [1])) (arg_x1 (gs_first_call [0] [1])))"
    by blast
  then have w1: "arg_h a = Some (vsub (arg_x4 a) (arg_x1 a))"
    "np_linalg_norm (vsub (arg_x4 a) (arg_x1 a)) = iphi"
    by (simp_all add: gs_first_call_def unit_bracket_width)
  from gs_bracket_shrinks_by_iphi [OF len r1] b2
  have "np_linalg_norm (vsub (arg_x4 a') (arg_x1 a')) =
          iphi * np_linalg_norm (vsub (arg_x4 a) (arg_x1 a))"
    by blast
  with w1 b1 b2 show ?thesis by auto
qed

subsection \<open>One evaluation for each recursive step\<close>

lemma gs_carried_first: "gs_carried func (gs_first_call p q) seen"
  by (simp add: gs_carried_def gs_first_call_def)

lemma gs_carried_step:
  "gs_carried func a (world st) \<Longrightarrow>
   goldensection_gs_body (spy func) precision a st = (Recurse a', st') \<Longrightarrow>
   gs_carried func a' (world st')"
  by (auto simp: gs_carried_def goldensection_gs_body_def Let_def goldensection_f_spy
      split: if_splits option.splits prod.splits)

lemma gs_calls_carried:
  "gs_calls (spy func) precision a0 st0 a st \<Longrightarrow> gs_carried func a0 (world st0) \<Longrightarrow>
   gs_carried func a (world st)"
  by (induction rule: gs_calls.induct) (auto intro: gs_carried_step)

lemma gs_body_Recurse_shape:
  "goldensection_gs_body func precision a0 st0 = (Recurse a, st) \<Longrightarrow>
   arg_x2 a = None \<and> arg_fx2 a = None \<and> arg_x3 a \<noteq> None \<and> arg_fx3 a \<noteq> None \<or>
   arg_x3 a = None \<and> arg_fx3 a = None \<and> arg_x2 a \<noteq> None \<and> arg_fx2 a \<noteq> None"
  by (auto simp: goldensection_gs_body_def Let_def split: if_splits prod.splits)

text \<open>
  An example with evaluations in the golden-section phase: the objective \<open>v \<mapsto> v[0]\<close>
  on the bracket from 0 to 1. It increases, so every step keeps the left part.
\<close>

lemma norm_singleton: "np_linalg_norm [c] = \<bar>c\<bar>"
  by (simp add: np_linalg_norm_def)

lemma iphi_gt_half: "1 / 2 < iphi"
  using sqrt5_bounds by (simp add: iphi_def)

lemma iphi2_lt_half: "iphi2 < 1 / 2"
  using sqrt5_bounds by (simp add: iphi2_def)

lemma increasing_example_first_step:
  assumes "precision < 1"
  shows "goldensection_gs_body (spy hd) precision (gs_first_call [0] [1]) \<lparr>nfev = n, world = seen\<rparr> =
     (Recurse \<lparr>arg_x1 = [0], arg_x4 = [iphi], arg_h = Some [iphi], arg_x2 = None,
               arg_x3 = Some [iphi2], arg_fx2 = None, arg_fx3 = Some iphi2\<rparr>,
      \<lparr>nfev = n + 2, world = seen @ [[iphi2], [iphi]]\<rparr>)"
  using assms iphi2_less_iphi
  by (simp add: goldensection_gs_body_def gs_first_call_def Let_def goldensection_f_spy
      vsub_def vadd_def smul_def norm_singleton)

lemma increasing_example_second_step:
  assumes "precision < iphi"
  shows "goldensection_gs_body (spy hd) precision
           \<lparr>arg_x1 = [0], arg_x4 = [iphi], arg_h = Some [iphi], arg_x2 = None,
            arg_x3 = Some [iphi2], arg_fx2 = None, arg_fx3 = Some iphi2\<rparr>
           \<lparr>nfev = n, world = seen\<rparr> =
     (Recurse \<lparr>arg_x1 = [0], arg_x4 = [iphi2], arg_h = Some [iphi * iphi], arg_x2 = None,
               arg_x3 = Some [iphi2 * iphi], arg_fx2 = None, arg_fx3 = Some (iphi2 * iphi)\<rparr>,
      \<lparr>nfev = n + 1, world = seen @ [[iphi2 * iphi]]\<rparr>)"
proof -
  have "iphi2 * iphi < iphi2 * 1"
    using iphi2_pos iphi_less_one by (intro mult_strict_left_mono)
  then have less: "iphi2 * iphi < iphi2" by simp
  from assms iphi_pos less show ?thesis
    by (simp add: goldensection_gs_body_def Let_def goldensection_f_spy
        vadd_def smul_def norm_singleton)
qed

lemma increasing_example_third_step:
  assumes "iphi2 \<le> precision"
  shows "goldensection_gs_body (spy hd) precision
           \<lparr>arg_x1 = [0], arg_x4 = [iphi2], arg_h = Some [iphi * iphi], arg_x2 = None,
            arg_x3 = Some [iphi2 * iphi], arg_fx2 = None, arg_fx3 = Some (iphi2 * iphi)\<rparr> st =
     (Return [iphi2 / 2], st)"
  using assms iphi2_pos
  by (simp add: goldensection_gs_body_def Let_def vadd_def sdiv_def norm_singleton iphi_sq)

text \<open>
  Claim C5. Take an invocation of \<^verbatim>\<open>_gs\<close> that was made by the recursive call of an
  earlier one in a search started by \<^verbatim>\<open>_gs(p, q)\<close>, on a pure objective \<open>func\<close> whose
  invocations are recorded. It was handed exactly one interior point, with the value of
  the objective there, from an invocation already made. If it does not return, the
  objective is invoked once, at the other interior point: the counter goes up by one and
  the record grows by that one point. The comparison is between the new value and the
  value handed over, and the call it makes hands on the point and the value that stay
  inside the new bracket, both as they are.
\<close>

theorem gs_recursive_step_one_evaluation:
  assumes reach: "gs_calls (spy func) precision (gs_first_call p q) st0 a0 st1"
    and called: "goldensection_gs_body (spy func) precision a0 st1 = (Recurse a, st)"
    and goes_on: "goldensection_gs_body (spy func) precision a st = (Recurse a', st')"
  shows "nfev st' = nfev st + 1 \<and>
         ((\<exists>x2 x3. arg_x2 a = None \<and> arg_fx2 a = None \<and>
              arg_x3 a = Some x3 \<and> arg_fx3 a = Some (func x3) \<and> x3 \<in> set (world st) \<and>
              x2 = vadd (arg_x1 a) (smul iphi2 (gs_h a)) \<and>
              world st' = world st @ [x2] \<and>
              (if func x2 < func x3
               then arg_x4 a' = x3 \<and> arg_x2 a' = None \<and> arg_fx2 a' = None \<and>
                    arg_x3 a' = Some x2 \<and> arg_fx3 a' = Some (func x2)
               else arg_x1 a' = x2 \<and> arg_x3 a' = None \<and> arg_fx3 a' = None \<and>
                    arg_x2 a' = Some x3 \<and> arg_fx2 a' = Some (func x3))) \<or>
          (\<exists>x2 x3. arg_x3 a = None \<and> arg_fx3 a = None \<and>
              arg_x2 a = Some x2 \<and> arg_fx2 a = Some (func x2) \<and> x2 \<in> set (world st) \<and>
              x3 = vadd (arg_x1 a) (smul iphi (gs_h a)) \<and>
              world st' = world st @ [x3] \<and>
              (if func x2 < func x3
               then arg_x4 a' = x3 \<and> arg_x2 a' = None \<and> arg_fx2 a' = None \<and>
                    arg_x3 a' = Some x2 \<and> arg_fx3 a' = Some (func x2)
               else arg_x1 a' = x2 \<and> arg_x3 a' = None \<and> arg_fx3 a' = None \<and>
                    arg_x2 a' = Some x3 \<and> arg_fx2 a' = Some (func x3))))"
proof -
  from gs_calls_carried [OF reach gs_carried_first]
  have "gs_carried func a0 (world st1)" .
  from gs_carried_step [OF this called] have carried: "gs_carried func a (world st)" .
  from gs_body_Recurse_shape [OF called] have shape:
    "arg_x2 a = None \<and> arg_fx2 a = None \<and> arg_x3 a \<noteq> None \<and> arg_fx3 a \<noteq> None \<or>
     arg_x3 a = None \<and> arg_fx3 a = None \<and> arg_x2 a \<noteq> None \<and> arg_fx2 a \<noteq> None" .
  then show ?thesis
  proof
    assume left: "arg_x2 a = None \<and> arg_fx2 a = None \<and> arg_x3 a \<noteq> None \<and> arg_fx3 a \<noteq> None"
    then obtain x3 where x3: "arg_x3 a = Some x3" by auto
    with carried have fx3: "arg_fx3 a = Some (func x3)" and seen: "x3 \<in> set (world st)"
      by (simp_all add: gs_carried_def)
    from goes_on left x3 fx3 seen show ?thesis
      by (auto simp: goldensection_gs_body_def Let_def goldensection_f_spy gs_h_def
          split: if_splits)
  next
    assume right: "arg_x3 a = None \<and> arg_fx3 a = None \<and> arg_x2 a \<noteq> None \<and> arg_fx2 a \<noteq> None"
    then obtain x2 where x2: "arg_x2 a = Some x2" by auto
    with carried have fx2: "arg_fx2 a = Some (func x2)" and seen: "x2 \<in> set (world st)"
      by (simp_all add: gs_carried_def)
    from goes_on right x2 fx2 seen show ?thesis
      by (auto simp: goldensection_gs_body_def Let_def goldensection_f_spy gs_h_def
          split: if_splits)
  qed
qed

theorem gs_recursive_step_one_evaluation_witness:
  "\<exists>a st a' st'.
     goldensection_gs_body (spy hd) (1 / 2) (gs_first_call [0] [1]) \<lparr>nfev = 0, world = []\<rparr> = (Recurse a, st) \<and>
     goldensection_gs_body (spy hd) (1 / 2) a st = (Recurse a', st') \<and>
     nfev st = 2 \<and> world st = [[iphi2], [iphi]] \<and> arg_fx3 a = Some (hd [iphi2]) \<and>
     nfev st' = 3 \<and> world st' = [[iphi2], [iphi], [iphi2 * iphi]] \<and>
     arg_fx3 a' = Some (hd [iphi2 * iphi])"
proof -
  let ?s0 = "\<lparr>nfev = 0, world = ([]::vec list)\<rparr>"
  let ?a = "\<lparr>arg_x1 = [0], arg_x4 = [iphi], arg_h = Some [iphi], arg_x2 = None,
             arg_x3 = Some [iphi2], arg_fx2 = None, arg_fx3 = Some iphi2\<rparr>"
  let ?st = "\<lparr>nfev = 2, world = [[iphi2], [iphi]]\<rparr>"
  let ?a' = "\<lparr>arg_x1 = [0], arg_x4 = [iphi2], arg_h = Some [iphi * iphi], arg_x2 = None,
               arg_x3 = Some [iphi2 * iphi], arg_fx2 = None, arg_fx3 = Some (iphi2 * iphi)\<rparr>"
  let ?st' = "\<lparr>nfev = 3, world = [[iphi2], [iphi], [iphi2 * iphi]]\<rparr>"
  have p1: "(1 / 2 :: real) < 1" by simp
  have b1: "goldensection_gs_body (spy hd) (1 / 2) (gs_first_call [0] [1]) ?s0 = (Recurse ?a, ?st)"
    using increasing_example_first_step [OF p1, of 0 "[]"] by simp
  have b2: "goldensection_gs_body (spy hd) (1 / 2) ?a ?st = (Recurse ?a', ?st')"
    using increasing_example_second_step [OF iphi_gt_half, of 2 "[[iphi2], [iphi]]"] by simp
  from gs_recursive_step_one_evaluation [OF gs_calls.first b1 b2]
  have "nfev ?st' = nfev ?st + 1" by blast
  then have "nfev ?st = 2 \<and> world ?st = [[iphi2], [iphi]] \<and> arg_fx3 ?a = Some (hd [iphi2]) \<and>
     nfev ?st' = 3 \<and> world ?st' = [[iphi2], [iphi], [iphi2 * iphi]] \<and>
     arg_fx3 ?a' = Some (hd [iphi2 * iphi])"
    by simp
  with b1 b2 show ?thesis by blast
qed

subsection \<open>The bracketing loop\<close>

lemma bracket_calls_0 [simp]: "bracket_calls x dx t 0 = []"
  by (simp add: bracket_calls_def)

lemma bracket_calls_Suc_front:
  "bracket_calls x dx t (Suc k) = [vadd x (smul (of_int t) dx), x] @ bracket_calls x dx (t * 2) k"
proof -
  have "[0..<Suc k] = 0 # map Suc [0..<k]"
    by (simp add: upt_conv_Cons map_Suc_upt del: upt_Suc)
  then show ?thesis
    by (simp add: bracket_calls_def comp_def mult.assoc del: upt_Suc)
qed

lemma length_bracket_calls: "length (bracket_calls x dx t k) = 2 * k"
  by (induction k arbitrary: t) (simp_all add: bracket_calls_Suc_front)

lemma bracket_loop_fail:
  "(\<forall>j<n. func (vadd x (smul (of_int (t * 2 ^ j)) dx)) \<le> func x) \<Longrightarrow>
   bracket_loop (spy func) x dx n t st =
     (None, st\<lparr>nfev := nfev st + 2 * int n, world := world st @ bracket_calls x dx t n\<rparr>)"
proof (induction n arbitrary: t st)
  case 0
  show ?case by simp
next
  case (Suc n)
  from Suc.prems [rule_format, of 0] have first: "func (vadd x (smul (of_int t) dx)) \<le> func x"
    by simp
  have rest: "\<forall>j<n. func (vadd x (smul (of_int (t * 2 * 2 ^ j)) dx)) \<le> func x"
    using Suc.prems [rule_format, of "Suc _"] by (simp add: mult.assoc)
  show ?case
    using first
    by (simp add: goldensection_f_spy Suc.IH [OF rest] bracket_calls_Suc_front)
qed

lemma bracket_loop_success:
  "j < n \<Longrightarrow> func x < func (vadd x (smul (of_int (t * 2 ^ j)) dx)) \<Longrightarrow>
   (\<forall>i<j. func (vadd x (smul (of_int (t * 2 ^ i)) dx)) \<le> func x) \<Longrightarrow>
   bracket_loop (spy func) x dx n t st =
     (Some (t * 2 ^ j),
      st\<lparr>nfev := nfev st + 2 * int (Suc j), world := world st @ bracket_calls x dx t (Suc j)\<rparr>)"
proof (induction n arbitrary: t st j)
  case 0
  then show ?case by simp
next
  case (Suc n)
  show ?case
  proof (cases j)
    case 0
    with Suc.prems(2) show ?thesis
      by (simp add: goldensection_f_spy bracket_calls_Suc_front)
  next
    case (Suc j')
    from Suc.prems(3) [rule_format, of 0] Suc
    have first: "func (vadd x (smul (of_int t) dx)) \<le> func x" by simp
    have rest: "\<forall>i<j'. func (vadd x (smul (of_int (t * 2 * 2 ^ i)) dx)) \<le> func x"
      using Suc.prems(3) [rule_format, of "Suc _"] Suc by (simp add: mult.assoc)
    from Suc.prems(2) Suc
    have hit: "func x < func (vadd x (smul (of_int (t * 2 * 2 ^ j')) dx))"
      by (simp add: mult.assoc)
    from Suc.prems(1) Suc have "j' < n" by simp
    from Suc.IH [OF this hit rest] first Suc show ?thesis
      by (simp add: goldensection_f_spy bracket_calls_Suc_front [of x dx t "Suc j'"] mult.assoc)
  qed
qed

lemma first_success:
  assumes "\<not> (\<forall>j<n. P j)"
  obtains j :: nat where "j < n" "\<not> P j" "\<forall>i<j. P i"
proof -
  from assms have "\<exists>j. j < n \<and> \<not> P j" by blast
  then obtain j where j: "j < n \<and> \<not> P j" and least: "\<forall>i<j. \<not> (i < n \<and> \<not> P i)"
    using exists_least_iff [of "\<lambda>j. j < n \<and> \<not> P j"] by blast
  from j least have "\<forall>i<j. P i" by auto
  with j show ?thesis using that by blast
qed

lemma goldensection_run_fail:
  assumes "\<forall>j<64. func (vadd x (smul (2 ^ j) dx)) \<le> func x"
  shows "goldensection_run (spy func) x dx precision [] =
           Some (Inl bracketing_failed, \<lparr>nfev = 128, world = bracket_calls x dx 1 64\<rparr>)"
proof -
  from assms have "\<forall>j<64. func (vadd x (smul (of_int (1 * 2 ^ j)) dx)) \<le> func x" by simp
  from bracket_loop_fail [OF this] show ?thesis
    by (simp add: goldensection_run_def)
qed

lemma goldensection_run_success:
  assumes "j < 64" "func x < func (vadd x (smul (2 ^ j) dx))"
    and "\<forall>i<j. func (vadd x (smul (2 ^ i) dx)) \<le> func x"
  shows "goldensection_run (spy func) x dx precision [] =
           map_option (pack_result x dx)
             (goldensection_gs (spy func) precision (gs_first_call x (vadd x (smul (2 ^ j) dx)))
                \<lparr>nfev = 2 * int (Suc j), world = bracket_calls x dx 1 (Suc j)\<rparr>)"
proof -
  from assms have "func x < func (vadd x (smul (of_int (1 * 2 ^ j)) dx))"
    and "\<forall>i<j. func (vadd x (smul (of_int (1 * 2 ^ i)) dx)) \<le> func x" by simp_all
  from bracket_loop_success [OF assms(1) this] show ?thesis
    by (simp add: goldensection_run_def pack_result_def split: option.splits)
qed

lemma goldensection_run_cases:
  obtains (fail) "\<forall>j<64. func (vadd x (smul (2 ^ j) dx)) \<le> func x"
      "goldensection_run (spy func) x dx precision [] =
         Some (Inl bracketing_failed, \<lparr>nfev = 128, world = bracket_calls x dx 1 64\<rparr>)"
  | (success) j where "j < 64" "func x < func (vadd x (smul (2 ^ j) dx))"
      "\<forall>i<j. func (vadd x (smul (2 ^ i) dx)) \<le> func x"
      "goldensection_run (spy func) x dx precision [] =
           map_option (pack_result x dx)
             (goldensection_gs (spy func) precision (gs_first_call x (vadd x (smul (2 ^ j) dx)))
                \<lparr>nfev = 2 * int (Suc j), world = bracket_calls x dx 1 (Suc j)\<rparr>)"
proof (cases "\<forall>j<64. func (vadd x (smul (2 ^ j) dx)) \<le> func x")
  case True
  show ?thesis by (rule fail [OF True goldensection_run_fail [OF True]])
next
  case False
  then obtain j :: nat where j: "j < 64" "\<not> func (vadd x (smul (2 ^ j) dx)) \<le> func x"
    "\<forall>i<j. func (vadd x (smul (2 ^ i) dx)) \<le> func x"
    by (rule first_success)
  from j(2) have hit: "func x < func (vadd x (smul (2 ^ j) dx))" by simp
  show ?thesis by (rule success [OF j(1) hit j(3) goldensection_run_success [OF j(1) hit j(3)]])
qed

lemma pack_result_Inr:
  "pack_result x dx vs = (res, st) \<Longrightarrow>
   st = snd vs \<and> res = Inr \<lparr>res_x = fst vs, res_t = np_average (np_divide (vsub (fst vs) x) dx),
                           res_nfev = nfev (snd vs)\<rparr>"
  by (cases vs) (auto simp: pack_result_def)

text \<open>
  Claim C2. \<^verbatim>\<open>goldensection\<close> raises the bracketing failure exactly when the objective
  at \<open>x + t*dx\<close> does not exceed the objective at \<open>x\<close> for every \<open>t = 2^j\<close>,
  \<open>j = 0, ..., 63\<close>; it raises no other error, and a raised error is the whole outcome
  (the outcome is \<open>Inl\<close> of the error, with no result beside it). When some doubling
  succeeds, the search is \<^verbatim>\<open>_gs\<close> on the bracket from \<open>x\<close> to \<open>x + 2^j*dx\<close> for the
  least such \<open>j\<close>, entered after \<open>2*(j + 1)\<close> evaluations.
\<close>

theorem bracketing_fails_iff_all_doublings_fail:
  "(goldensection (spy func) x dx precision [] = Some (Inl bracketing_failed)
      \<longleftrightarrow> (\<forall>j<64. func (vadd x (smul (2 ^ j) dx)) \<le> func x)) \<and>
   (\<forall>e. goldensection (spy func) x dx precision [] = Some (Inl e) \<longrightarrow> e = bracketing_failed) \<and>
   (\<forall>j<64. func x < func (vadd x (smul (2 ^ j) dx)) \<and>
        (\<forall>i<j. func (vadd x (smul (2 ^ i) dx)) \<le> func x) \<longrightarrow>
      goldensection_run (spy func) x dx precision [] =
        map_option (pack_result x dx)
          (goldensection_gs (spy func) precision (gs_first_call x (vadd x (smul (2 ^ j) dx)))
             \<lparr>nfev = 2 * int (Suc j), world = bracket_calls x dx 1 (Suc j)\<rparr>))"
proof (intro conjI allI impI)
  show "goldensection (spy func) x dx precision [] = Some (Inl bracketing_failed)
      \<longleftrightarrow> (\<forall>j<64. func (vadd x (smul (2 ^ j) dx)) \<le> func x)"
  proof (cases rule: goldensection_run_cases [of func x dx precision])
    case fail
    then show ?thesis by (simp add: goldensection_def)
  next
    case (success j)
    have "goldensection (spy func) x dx precision [] \<noteq> Some (Inl bracketing_failed)"
      by (auto simp: goldensection_def success(4) dest: pack_result_Inr)
    moreover from success(1,2) have "\<not> (\<forall>j<64. func (vadd x (smul (2 ^ j) dx)) \<le> func x)"
      by (auto simp: not_le)
    ultimately show ?thesis by simp
  qed
next
  fix e assume raised: "goldensection (spy func) x dx precision [] = Some (Inl e)"
  show "e = bracketing_failed"
  proof (cases rule: goldensection_run_cases [of func x dx precision])
    case fail
    with raised show ?thesis by (simp add: goldensection_def)
  next
    case (success j)
    with raised show ?thesis
      by (auto simp: goldensection_def dest: pack_result_Inr)
  qed
next
  fix j :: nat
  assume "j < 64" and "func x < func (vadd x (smul (2 ^ j) dx)) \<and>
        (\<forall>i<j. func (vadd x (smul (2 ^ i) dx)) \<le> func x)"
  then show "goldensection_run (spy func) x dx precision [] =
        map_option (pack_result x dx)
          (goldensection_gs (spy func) precision (gs_first_call x (vadd x (smul (2 ^ j) dx)))
             \<lparr>nfev = 2 * int (Suc j), world = bracket_calls x dx 1 (Suc j)\<rparr>)"
    using goldensection_run_success by blast
qed

theorem bracketing_fails_iff_all_doublings_fail_witness:
  "goldensection (spy (\<lambda>v. - hd v)) [0] [1] 1 [] = Some (Inl bracketing_failed) \<and>
   goldensection (spy (\<lambda>v. hd v)) [0] [1] 1 [] \<noteq> Some (Inl bracketing_failed) \<and>
   goldensection_run (spy (\<lambda>v. (hd v - 3)\<^sup>2)) [0] [1] 1 [] =
     map_option (pack_result [0] [1])
       (goldensection_gs (spy (\<lambda>v. (hd v - 3)\<^sup>2)) 1 (gs_first_call [0] [8])
          \<lparr>nfev = 8, world = [[1], [0], [2], [0], [4], [0], [8], [0]]\<rparr>)"
proof -
  have pt: "vadd [0] (smul c [1]) = [c]" for c :: real
    by (simp add: vadd_def smul_def)
  have "\<forall>j<64. (\<lambda>v. - hd v) (vadd [0] (smul (2 ^ j) [1])) \<le> (\<lambda>v. - hd v) [0::real]"
    by (simp add: pt)
  with bracketing_fails_iff_all_doublings_fail [of "\<lambda>v. - hd v" "[0]" "[1]" 1]
  have a: "goldensection (spy (\<lambda>v. - hd v)) [0] [1] 1 [] = Some (Inl bracketing_failed)" by blast
  have "\<not> (\<forall>j<64. (\<lambda>v. hd v) (vadd [0] (smul (2 ^ j) [1])) \<le> (\<lambda>v. hd v) [0::real])"
    by (auto simp: pt intro: exI [of _ 0])
  with bracketing_fails_iff_all_doublings_fail [of "\<lambda>v. hd v" "[0]" "[1]" 1]
  have b: "goldensection (spy (\<lambda>v. hd v)) [0] [1] 1 [] \<noteq> Some (Inl bracketing_failed)" by blast
  let ?q = "\<lambda>v::vec. (hd v - 3)\<^sup>2"
  have less: "\<forall>i<3. ?q (vadd [0] (smul (2 ^ i) [1])) \<le> ?q [0]"
  proof (intro allI impI)
    fix i :: nat assume "i < 3"
    then have "i = 0 \<or> i = 1 \<or> i = 2" by auto
    then show "?q (vadd [0] (smul (2 ^ i) [1])) \<le> ?q [0]"
      by (auto simp: pt power2_eq_square)
  qed
  have hit: "?q [0] < ?q (vadd [0] (smul (2 ^ 3) [1]))"
    by (simp add: pt power2_eq_square)
  have calls: "bracket_calls [0] [1] 1 4 = [[1], [0], [2], [0], [4], [0], [8], [0]]"
    by (simp add: eval_nat_numeral bracket_calls_Suc_front pt)
  from bracketing_fails_iff_all_doublings_fail
    [of ?q "[0]" "[1]" 1, THEN conjunct2, THEN conjunct2, rule_format, of 3] hit less
  have "goldensection_run (spy ?q) [0] [1] 1 [] =
        map_option (pack_result [0] [1])
          (goldensection_gs (spy ?q) 1 (gs_first_call [0] (vadd [0] (smul (2 ^ 3) [1])))
             \<lparr>nfev = 2 * int (Suc 3), world = bracket_calls [0] [1] 1 (Suc 3)\<rparr>)"
    by simp
  then have c: "goldensection_run (spy ?q) [0] [1] 1 [] =
     map_option (pack_result [0] [1])
       (goldensection_gs (spy ?q) 1 (gs_first_call [0] [8])
          \<lparr>nfev = 8, world = [[1], [0], [2], [0], [4], [0], [8], [0]]\<rparr>)"
    by (simp add: calls pt)
  from a b c show ?thesis by blast
qed

subsection \<open>Counting evaluations\<close>

lemma gs_result_counts:
  assumes "goldensection_gs (spy func) precision a st = Some (v, st')"
  shows "\<exists>cs. world st' = world st @ cs \<and> nfev st' = nfev st + int (length cs)"
proof -
  from gs_final_call [OF assms] obtain af where "gs_calls (spy func) precision a st af st'" by blast
  then show ?thesis by (rule gs_calls_counts)
qed

lemma bracket_loop_nfev_mono: "nfev st \<le> nfev (snd (bracket_loop (spy func) x dx n t st))"
proof (induction n arbitrary: t st)
  case 0
  show ?case by simp
next
  case (Suc n)
  let ?st2 = "snd (goldensection_f (spy func) x (snd (goldensection_f (spy func) (vadd x (smul (of_int t) dx)) st)))"
  have "nfev st \<le> nfev ?st2" by (simp add: goldensection_f_spy)
  also have "nfev ?st2 \<le> nfev (snd (bracket_loop (spy func) x dx n (t * 2) ?st2))" by (rule Suc.IH)
  finally show ?case
    by (simp add: goldensection_f_spy)
qed

lemma search_example:
  "goldensection_run (spy (\<lambda>v. hd v)) [0, 0] [1, 0] 1 [] =
     Some (Inr \<lparr>res_x = [1 / 2, 0], res_t = None, res_nfev = 2\<rparr>,
           \<lparr>nfev = 2, world = [[1, 0], [0, 0]]\<rparr>)"
proof -
  have pt: "vadd [0, 0] (smul c [1, 0]) = [c, 0]" for c :: real
    by (simp add: vadd_def smul_def)
  have hit: "(\<lambda>v. hd v) [0, 0] < (\<lambda>v::vec. hd v) (vadd [0, 0] (smul (2 ^ 0) [1, 0]))"
    by (simp add: pt)
  have calls: "bracket_calls [0, 0] [1, 0] 1 (Suc 0) = [[1, 0], [0, 0]]"
    by (simp add: bracket_calls_Suc_front pt)
  have "np_linalg_norm (gs_h (gs_first_call [0, 0] [1, 0])) \<le> 1"
    by (simp add: gs_h_def gs_first_call_def vsub_def np_linalg_norm_def)
  from gs_body_Return [OF this, of "spy (\<lambda>v. hd v)"]
  have gs: "goldensection_gs (spy (\<lambda>v. hd v)) 1 (gs_first_call [0, 0] [1, 0]) st = Some ([1 / 2, 0], st)" for st
    by (subst goldensection_gs.simps) (simp add: gs_first_call_def vadd_def sdiv_def)
  from goldensection_run_success [of 0 "\<lambda>v. hd v" "[0, 0]" "[1, 0]" 1, OF _ hit]
  show ?thesis
    by (simp add: pt calls gs pack_result_def vsub_def np_divide_def np_average_def)
qed

lemma goldensection_run_returns:
  assumes "0 < precision"
  shows "\<exists>res st. goldensection_run (spy func) x dx precision [] = Some (res, st)"
proof (cases rule: goldensection_run_cases [of func x dx precision])
  case fail
  then show ?thesis by simp
next
  case (success j)
  from gs_terminates [OF assms] obtain v st' where
    "goldensection_gs (spy func) precision (gs_first_call x (vadd x (smul (2 ^ j) dx)))
       \<lparr>nfev = 2 * int (Suc j), world = bracket_calls x dx 1 (Suc j)\<rparr> = Some (v, st')"
    by fastforce
  with success(4) show ?thesis
    by (simp add: pack_result_def)
qed

lemma smul_one: "smul 1 v = v"
  by (induction v) (simp_all add: smul_def)

lemma gs_h_first_call: "gs_h (gs_first_call p q) = vsub q p"
  by (simp add: gs_h_def gs_first_call_def)

lemma gs_body_one_evaluation:
  "(arg_fx2 a = None) \<noteq> (arg_fx3 a = None) \<Longrightarrow>
   goldensection_gs_body (spy func) precision a st = (Recurse a', st') \<Longrightarrow>
   \<exists>v. world st' = world st @ [v] \<and> nfev st' = nfev st + 1"
  by (auto simp: goldensection_gs_body_def Let_def goldensection_f_spy
      split: if_splits option.splits prod.splits)

lemma gs_calls_count:
  assumes "gs_calls (spy func) precision (gs_first_call p q) st0 a st"
  shows "\<exists>k cs. gs_h a = smul (iphi ^ k) (vsub q p) \<and>
           (\<forall>i<k. precision < np_linalg_norm (vsub q p) * iphi ^ i) \<and>
           world st = world st0 @ cs \<and> nfev st = nfev st0 + int (length cs) \<and>
           length cs = (if k = 0 then 0 else k + 1) \<and>
           (0 < k \<longrightarrow> take 2 cs = [vadd p (smul iphi2 (vsub q p)), vadd p (smul iphi (vsub q p))]) \<and>
           (if k = 0 then a = gs_first_call p q else (arg_fx2 a = None) \<noteq> (arg_fx3 a = None))"
  using assms
proof (induction rule: gs_calls.induct)
  case first
  have "gs_h (gs_first_call p q) = smul (iphi ^ 0) (vsub q p) \<and>
        (\<forall>i<0::nat. precision < np_linalg_norm (vsub q p) * iphi ^ i) \<and>
        world st0 = world st0 @ [] \<and> nfev st0 = nfev st0 + int (length ([]::vec list)) \<and>
        length ([]::vec list) = (if (0::nat) = 0 then 0 else 0 + 1) \<and>
        ((0::nat) < 0 \<longrightarrow> take 2 ([]::vec list) = [vadd p (smul iphi2 (vsub q p)), vadd p (smul iphi (vsub q p))]) \<and>
        (if (0::nat) = 0 then gs_first_call p q = gs_first_call p q
         else (arg_fx2 (gs_first_call p q) = None) \<noteq> (arg_fx3 (gs_first_call p q) = None))"
    by (simp add: gs_h_first_call smul_one)
  then show ?case by blast
next
  case (recursive a st a' st')
  let ?d = "vsub q p"
  from recursive.IH obtain k cs where
    h: "gs_h a = smul (iphi ^ k) ?d" and
    above: "\<forall>i<k. precision < np_linalg_norm ?d * iphi ^ i" and
    log: "world st = world st0 @ cs" "nfev st = nfev st0 + int (length cs)" and
    len: "length cs = (if k = 0 then 0 else k + 1)" and
    two: "0 < k \<longrightarrow> take 2 cs = [vadd p (smul iphi2 ?d), vadd p (smul iphi ?d)]" and
    shape: "if k = 0 then a = gs_first_call p q else (arg_fx2 a = None) \<noteq> (arg_fx3 a = None)"
    by blast
  note rec = recursive.hyps(2)
  from gs_body_Recurse_h [OF rec] have wide: "\<not> np_linalg_norm (gs_h a) \<le> precision"
    and h': "arg_h a' = Some (smul iphi (gs_h a))" by simp_all
  from h' have "gs_h a' = smul iphi (gs_h a)" by (simp add: gs_h_def)
  then have nh: "gs_h a' = smul (iphi ^ Suc k) ?d"
    by (simp add: h smul_smul)
  have "np_linalg_norm (gs_h a) = np_linalg_norm ?d * iphi ^ k"
    using iphi_pos by (simp add: h norm_smul abs_mult power_abs)
  with wide have "precision < np_linalg_norm ?d * iphi ^ k" by simp
  with above have above': "\<forall>i<Suc k. precision < np_linalg_norm ?d * iphi ^ i"
    by (auto simp: less_Suc_eq)
  from gs_body_Recurse_shape [OF rec]
  have shape': "(arg_fx2 a' = None) \<noteq> (arg_fx3 a' = None)" by auto
  have "\<exists>ds. world st' = world st0 @ ds \<and> nfev st' = nfev st0 + int (length ds) \<and>
          length ds = Suc k + 1 \<and>
          take 2 ds = [vadd p (smul iphi2 ?d), vadd p (smul iphi ?d)]"
  proof (cases "k = 0")
    case True
    with shape have a: "a = gs_first_call p q" by simp
    from True len have cs: "cs = []" by simp
    from gs_first_call_two_evaluations [OF rec [unfolded a]]
    have "nfev st' = nfev st + 2"
      "world st' = world st @ [vadd p (smul iphi2 ?d), vadd p (smul iphi ?d)]" by simp_all
    with log cs True
    have "world st' = world st0 @ [vadd p (smul iphi2 ?d), vadd p (smul iphi ?d)] \<and>
          nfev st' = nfev st0 + int (length [vadd p (smul iphi2 ?d), vadd p (smul iphi ?d)]) \<and>
          length [vadd p (smul iphi2 ?d), vadd p (smul iphi ?d)] = Suc k + 1 \<and>
          take 2 [vadd p (smul iphi2 ?d), vadd p (smul iphi ?d)] =
            [vadd p (smul iphi2 ?d), vadd p (smul iphi ?d)]"
      by simp
    then show ?thesis by blast
  next
    case False
    with shape have "(arg_fx2 a = None) \<noteq> (arg_fx3 a = None)" by simp
    from gs_body_one_evaluation [OF this rec] obtain v where
      v: "world st' = world st @ [v]" "nfev st' = nfev st + 1" by blast
    from False len have l: "length cs = k + 1" by simp
    from False two have t: "take 2 cs = [vadd p (smul iphi2 ?d), vadd p (smul iphi ?d)]" by simp
    from False l have "2 \<le> length cs" by simp
    then have "take 2 (cs @ [v]) = take 2 cs" by simp
    with v log l t
    have "world st' = world st0 @ (cs @ [v]) \<and> nfev st' = nfev st0 + int (length (cs @ [v])) \<and>
          length (cs @ [v]) = Suc k + 1 \<and>
          take 2 (cs @ [v]) = [vadd p (smul iphi2 ?d), vadd p (smul iphi ?d)]"
      by simp
    then show ?thesis by blast
  qed
  then obtain ds where ds: "world st' = world st0 @ ds" "nfev st' = nfev st0 + int (length ds)"
    "length ds = Suc k + 1" "take 2 ds = [vadd p (smul iphi2 ?d), vadd p (smul iphi ?d)]"
    by blast
  from nh above' ds shape'
  have "gs_h a' = smul (iphi ^ Suc k) ?d \<and>
        (\<forall>i<Suc k. precision < np_linalg_norm ?d * iphi ^ i) \<and>
        world st' = world st0 @ ds \<and> nfev st' = nfev st0 + int (length ds) \<and>
        length ds = (if Suc k = 0 then 0 else Suc k + 1) \<and>
        (0 < Suc k \<longrightarrow> take 2 ds = [vadd p (smul iphi2 ?d), vadd p (smul iphi ?d)]) \<and>
        (if Suc k = 0 then a' = gs_first_call p q else (arg_fx2 a' = None) \<noteq> (arg_fx3 a' = None))"
    by simp
  then show ?case by blast
qed

lemma gs_result_count:
  assumes gs: "goldensection_gs (spy func) precision (gs_first_call p q) st = Some (v, st')"
  shows "\<exists>k cs. np_linalg_norm (vsub q p) * iphi ^ k \<le> precision \<and>
           (\<forall>i<k. precision < np_linalg_norm (vsub q p) * iphi ^ i) \<and>
           world st' = world st @ cs \<and> nfev st' = nfev st + int (length cs) \<and>
           length cs = (if k = 0 then 0 else k + 1) \<and>
           (0 < k \<longrightarrow> take 2 cs = [vadd p (smul iphi2 (vsub q p)), vadd p (smul iphi (vsub q p))])"
proof -
  from gs_final_call [OF gs] obtain af where
    reach: "gs_calls (spy func) precision (gs_first_call p q) st af st'" and
    ret: "goldensection_gs_body (spy func) precision af st' = (Return v, st')" by blast
  from ret have small: "np_linalg_norm (gs_h af) \<le> precision"
    using gs_body_Return_iff by blast
  from gs_calls_count [OF reach] obtain k cs where
    h: "gs_h af = smul (iphi ^ k) (vsub q p)" and
    rest: "(\<forall>i<k. precision < np_linalg_norm (vsub q p) * iphi ^ i) \<and>
           world st' = world st @ cs \<and> nfev st' = nfev st + int (length cs) \<and>
           length cs = (if k = 0 then 0 else k + 1) \<and>
           (0 < k \<longrightarrow> take 2 cs = [vadd p (smul iphi2 (vsub q p)), vadd p (smul iphi (vsub q p))])"
    by blast
  have "np_linalg_norm (gs_h af) = np_linalg_norm (vsub q p) * iphi ^ k"
    using iphi_pos by (simp add: h norm_smul abs_mult power_abs)
  with small have "np_linalg_norm (vsub q p) * iphi ^ k \<le> precision" by simp
  with rest show ?thesis by blast
qed

lemma increasing_example_gs:
  "goldensection_gs (spy hd) (1 / 2) (gs_first_call [0] [1]) \<lparr>nfev = n, world = seen\<rparr> =
     Some ([iphi2 / 2], \<lparr>nfev = n + 3, world = seen @ [[iphi2], [iphi], [iphi2 * iphi]]\<rparr>)"
proof -
  have p1: "(1 / 2 :: real) < 1" by simp
  have p3: "iphi2 \<le> 1 / 2" using iphi2_lt_half by simp
  show ?thesis
    apply (subst goldensection_gs.simps)
    apply (simp only: increasing_example_first_step [OF p1] prod.case gs_action.case)
    apply (subst goldensection_gs.simps)
    apply (simp only: increasing_example_second_step [OF iphi_gt_half] prod.case gs_action.case)
    apply (subst goldensection_gs.simps)
    apply (simp only: increasing_example_third_step [OF p3] prod.case gs_action.case)
    apply simp
    done
qed

lemma increasing_example_search:
  "goldensection_run (spy hd) [0] [1] (1 / 2) [] =
     Some (Inr \<lparr>res_x = [iphi2 / 2], res_t = Some (iphi2 / 2), res_nfev = 5\<rparr>,
           \<lparr>nfev = 5, world = [[1], [0], [iphi2], [iphi], [iphi2 * iphi]]\<rparr>)"
proof -
  have pt: "vadd [0] (smul c [1]) = [c]" for c :: real
    by (simp add: vadd_def smul_def)
  have hit: "hd [0] < (hd (vadd [0] (smul (2 ^ 0) [1])) :: real)"
    by (simp add: pt)
  have calls: "bracket_calls [0] [1] 1 (Suc 0) = [[1], [0]]"
    by (simp add: bracket_calls_Suc_front pt)
  from goldensection_run_success [of 0 hd "[0]" "[1]" "1 / 2", OF _ hit]
  show ?thesis
    by (simp add: pt calls increasing_example_gs pack_result_def vsub_def np_divide_def np_average_def)
qed

text \<open>
  Claim C4. The objective is a pure function \<open>func\<close> whose invocations are recorded by
  the objective itself, outside the search. Each call of \<^verbatim>\<open>_f\<close> adds one to
  \<^verbatim>\<open>nfev\<close> and makes one invocation; the counter never decreases through the
  bracketing loop nor from one invocation of \<^verbatim>\<open>_gs\<close> to a later one. When a call of
  \<^verbatim>\<open>goldensection\<close> ends, the counter is non-negative and is the number of invocations
  recorded. If the bracketing failed these are the 128 invocations of 64 iterations.
  Otherwise the returned \<^verbatim>\<open>'nfev'\<close> is the number of invocations recorded: two for each
  of the \<open>j + 1\<close> bracketing iterations, at \<open>x + 2^i*dx\<close> and at \<open>x\<close>, \<open>j\<close> the first
  doubling that succeeds, followed by those of the golden-section phase, which are none
  if the bracket is within the precision at once and else \<open>k + 1\<close>, the first two at
  the two interior points of the bracket, \<open>k\<close> being the number of times the width has
  to be multiplied by \<open>iphi\<close> to come within the precision.
\<close>

theorem evaluation_count_is_number_of_calls:
  "(\<forall>v st. nfev (snd (goldensection_f (spy func) v st)) = nfev st + 1 \<and>
            world (snd (goldensection_f (spy func) v st)) = world st @ [v]) \<and>
   (\<forall>n t st. nfev st \<le> nfev (snd (bracket_loop (spy func) x dx n t st))) \<and>
   (\<forall>a0 st0 a st. gs_calls (spy func) precision a0 st0 a st \<longrightarrow> nfev st0 \<le> nfev st) \<and>
   (\<forall>res st. goldensection_run (spy func) x dx precision [] = Some (res, st) \<longrightarrow>
      0 \<le> nfev st \<and> nfev st = int (length (world st)) \<and>
      (\<forall>e. res = Inl e \<longrightarrow> world st = bracket_calls x dx 1 64 \<and> length (world st) = 128) \<and>
      (\<forall>r. res = Inr r \<longrightarrow> res_nfev r = int (length (world st)) \<and>
         (\<exists>j k cs. j < 64 \<and> func x < func (vadd x (smul (2 ^ j) dx)) \<and>
            (\<forall>i<j. func (vadd x (smul (2 ^ i) dx)) \<le> func x) \<and>
            np_linalg_norm (vsub (vadd x (smul (2 ^ j) dx)) x) * iphi ^ k \<le> precision \<and>
            (\<forall>i<k. precision < np_linalg_norm (vsub (vadd x (smul (2 ^ j) dx)) x) * iphi ^ i) \<and>
            world st = bracket_calls x dx 1 (Suc j) @ cs \<and>
            length cs = (if k = 0 then 0 else k + 1) \<and>
            (0 < k \<longrightarrow> take 2 cs =
               [vadd x (smul iphi2 (vsub (vadd x (smul (2 ^ j) dx)) x)),
                vadd x (smul iphi (vsub (vadd x (smul (2 ^ j) dx)) x))]) \<and>
            res_nfev r = 2 * int (Suc j) + (if k = 0 then 0 else int k + 1))))"
proof (intro conjI allI impI)
  fix v st
  show "nfev (snd (goldensection_f (spy func) v st)) = nfev st + 1"
    and "world (snd (goldensection_f (spy func) v st)) = world st @ [v]"
    by (simp_all add: goldensection_f_spy)
next
  fix n t st
  show "nfev st \<le> nfev (snd (bracket_loop (spy func) x dx n t st))"
    by (rule bracket_loop_nfev_mono)
next
  fix a0 st0 a st
  assume "gs_calls (spy func) precision a0 st0 a st"
  from gs_calls_counts [OF this] show "nfev st0 \<le> nfev st" by auto
next
  fix res st
  assume run: "goldensection_run (spy func) x dx precision [] = Some (res, st)"
  let ?q = "\<lambda>j::nat. vadd x (smul (2 ^ j) dx)"
  have all: "nfev st = int (length (world st)) \<and>
      (\<forall>e. res = Inl e \<longrightarrow> world st = bracket_calls x dx 1 64 \<and> length (world st) = 128) \<and>
      (\<forall>r. res = Inr r \<longrightarrow> res_nfev r = int (length (world st)) \<and>
         (\<exists>j k cs. j < 64 \<and> func x < func (?q j) \<and>
            (\<forall>i<j. func (?q i) \<le> func x) \<and>
            np_linalg_norm (vsub (?q j) x) * iphi ^ k \<le> precision \<and>
            (\<forall>i<k. precision < np_linalg_norm (vsub (?q j) x) * iphi ^ i) \<and>
            world st = bracket_calls x dx 1 (Suc j) @ cs \<and>
            length cs = (if k = 0 then 0 else k + 1) \<and>
            (0 < k \<longrightarrow> take 2 cs =
               [vadd x (smul iphi2 (vsub (?q j) x)), vadd x (smul iphi (vsub (?q j) x))]) \<and>
            res_nfev r = 2 * int (Suc j) + (if k = 0 then 0 else int k + 1)))"
  proof (cases rule: goldensection_run_cases [of func x dx precision])
    case fail
    with run have res: "res = Inl bracketing_failed"
      and st: "st = \<lparr>nfev = 128, world = bracket_calls x dx 1 64\<rparr>" by simp_all
    show ?thesis
      by (simp add: res st length_bracket_calls)
  next
    case (success j)
    let ?st1 = "\<lparr>nfev = 2 * int (Suc j), world = bracket_calls x dx 1 (Suc j)\<rparr>"
    from run success(4) obtain v st' where
      gs: "goldensection_gs (spy func) precision (gs_first_call x (?q j)) ?st1 = Some (v, st')"
      and packed: "pack_result x dx (v, st') = (res, st)"
      by auto
    from pack_result_Inr [OF packed] have st: "st = st'"
      and res: "res = Inr \<lparr>res_x = v, res_t = np_average (np_divide (vsub v x) dx),
                           res_nfev = nfev st'\<rparr>" by simp_all
    from gs_result_count [OF gs] obtain k cs where
      small: "np_linalg_norm (vsub (?q j) x) * iphi ^ k \<le> precision" and
      above: "\<forall>i<k. precision < np_linalg_norm (vsub (?q j) x) * iphi ^ i" and
      log: "world st' = bracket_calls x dx 1 (Suc j) @ cs" and
      count: "nfev st' = 2 * int (Suc j) + int (length cs)" and
      len: "length cs = (if k = 0 then 0 else k + 1)" and
      two: "0 < k \<longrightarrow> take 2 cs =
               [vadd x (smul iphi2 (vsub (?q j) x)), vadd x (smul iphi (vsub (?q j) x))]"
      by auto
    from log count have eq: "nfev st' = int (length (world st'))"
      by (simp add: length_bracket_calls)
    from count len have formula: "nfev st' = 2 * int (Suc j) + (if k = 0 then 0 else int k + 1)"
      by simp
    from success(1-3) small above log len two formula
    have "j < 64 \<and> func x < func (?q j) \<and>
            (\<forall>i<j. func (?q i) \<le> func x) \<and>
            np_linalg_norm (vsub (?q j) x) * iphi ^ k \<le> precision \<and>
            (\<forall>i<k. precision < np_linalg_norm (vsub (?q j) x) * iphi ^ i) \<and>
            world st' = bracket_calls x dx 1 (Suc j) @ cs \<and>
            length cs = (if k = 0 then 0 else k + 1) \<and>
            (0 < k \<longrightarrow> take 2 cs =
               [vadd x (smul iphi2 (vsub (?q j) x)), vadd x (smul iphi (vsub (?q j) x))]) \<and>
            nfev st' = 2 * int (Suc j) + (if k = 0 then 0 else int k + 1)"
      by blast
    then have "\<exists>j k cs. j < 64 \<and> func x < func (?q j) \<and>
            (\<forall>i<j. func (?q i) \<le> func x) \<and>
            np_linalg_norm (vsub (?q j) x) * iphi ^ k \<le> precision \<and>
            (\<forall>i<k. precision < np_linalg_norm (vsub (?q j) x) * iphi ^ i) \<and>
            world st' = bracket_calls x dx 1 (Suc j) @ cs \<and>
            length cs = (if k = 0 then 0 else k + 1) \<and>
            (0 < k \<longrightarrow> take 2 cs =
               [vadd x (smul iphi2 (vsub (?q j) x)), vadd x (smul iphi (vsub (?q j) x))]) \<and>
            nfev st' = 2 * int (Suc j) + (if k = 0 then 0 else int k + 1)"
      by blast
    with eq show ?thesis
      by (simp add: res st)
  qed
  then show "nfev st = int (length (world st))"
    and "\<And>e. res = Inl e \<Longrightarrow> world st = bracket_calls x dx 1 64"
    and "\<And>e. res = Inl e \<Longrightarrow> length (world st) = 128"
    and "\<And>r. res = Inr r \<Longrightarrow> res_nfev r = int (length (world st))"
    and "\<And>r. res = Inr r \<Longrightarrow> \<exists>j k cs. j < 64 \<and> func x < func (?q j) \<and>
            (\<forall>i<j. func (?q i) \<le> func x) \<and>
            np_linalg_norm (vsub (?q j) x) * iphi ^ k \<le> precision \<and>
            (\<forall>i<k. precision < np_linalg_norm (vsub (?q j) x) * iphi ^ i) \<and>
            world st = bracket_calls x dx 1 (Suc j) @ cs \<and>
            length cs = (if k = 0 then 0 else k + 1) \<and>
            (0 < k \<longrightarrow> take 2 cs =
               [vadd x (smul iphi2 (vsub (?q j) x)), vadd x (smul iphi (vsub (?q j) x))]) \<and>
            res_nfev r = 2 * int (Suc j) + (if k = 0 then 0 else int k + 1)"
    by blast+
  from all show "0 \<le> nfev st" by simp
qed

theorem evaluation_count_is_number_of_calls_witness:
  "(\<exists>st. goldensection_run (spy (\<lambda>v. - hd v)) [0] [1] 1 [] = Some (Inl bracketing_failed, st) \<and>
         length (world st) = 128 \<and> nfev st = 128) \<and>
   (\<exists>r st. goldensection_run (spy hd) [0] [1] (1 / 2) [] = Some (Inr r, st) \<and>
         res_nfev r = 5 \<and> nfev st = 5 \<and>
         world st = [[1], [0], [iphi2], [iphi], [iphi2 * iphi]])"
proof -
  have pt: "vadd [0] (smul c [1]) = [c]" for c :: real
    by (simp add: vadd_def smul_def)
  have "\<forall>j<64. (\<lambda>v. - hd v) (vadd [0] (smul (2 ^ j) [1])) \<le> (\<lambda>v. - hd v) [0::real]"
    by (simp add: pt)
  from goldensection_run_fail [OF this] obtain st where
    run: "goldensection_run (spy (\<lambda>v. - hd v)) [0] [1] 1 [] = Some (Inl bracketing_failed, st)" by blast
  note count = evaluation_count_is_number_of_calls
    [THEN conjunct2, THEN conjunct2, THEN conjunct2, rule_format]
  from count [OF run] have "length (world st) = 128 \<and> nfev st = 128"
    by (simp add: length_bracket_calls)
  with run have a: "\<exists>st. goldensection_run (spy (\<lambda>v. - hd v)) [0] [1] 1 [] = Some (Inl bracketing_failed, st) \<and>
         length (world st) = 128 \<and> nfev st = 128" by blast
  let ?r = "\<lparr>res_x = [iphi2 / 2], res_t = Some (iphi2 / 2), res_nfev = 5\<rparr>"
  let ?st = "\<lparr>nfev = 5, world = [[1], [0], [iphi2], [iphi], [iphi2 * iphi]]\<rparr>"
  from count [OF increasing_example_search]
  have "nfev ?st = int (length (world ?st)) \<and> res_nfev ?r = int (length (world ?st))"
    by simp
  then have "res_nfev ?r = 5 \<and> nfev ?st = 5 \<and> world ?st = [[1], [0], [iphi2], [iphi], [iphi2 * iphi]]"
    by simp
  with increasing_example_search
  have b: "\<exists>r st. goldensection_run (spy hd) [0] [1] (1 / 2) [] = Some (Inr r, st) \<and>
         res_nfev r = 5 \<and> nfev st = 5 \<and> world st = [[1], [0], [iphi2], [iphi], [iphi2 * iphi]]"
    by blast
  from a b show ?thesis ..
qed

subsection \<open>The returned point\<close>

lemma gs_final_on_ray:
  assumes len: "length dx = length x"
    and gs: "goldensection_gs (spy func) precision (gs_first_call x (ray x dx w0)) st = Some (v, st')"
  shows "\<exists>af p w. gs_calls (spy func) precision (gs_first_call x (ray x dx w0)) st af st' \<and>
           goldensection_gs_body (spy func) precision af st' = (Return v, st') \<and>
           arg_x1 af = ray x dx p \<and> arg_x4 af = ray x dx (p + w) \<and>
           vsub (arg_x4 af) (arg_x1 af) = smul w dx \<and>
           np_linalg_norm (smul w dx) \<le> precision \<and>
           v = sdiv (vadd (arg_x1 af) (arg_x4 af)) 2 \<and> v = ray x dx (p + w / 2) \<and>
           (0 < w0 \<longrightarrow> 0 < w) \<and>
           (unimodal_along func x dx ts \<and> 0 < w0 \<and> ts \<le> w0 \<longrightarrow> p \<le> ts \<and> ts \<le> p + w)"
proof -
  from gs_final_call [OF gs] obtain af where
    reach: "gs_calls (spy func) precision (gs_first_call x (ray x dx w0)) st af st'" and
    ret: "goldensection_gs_body (spy func) precision af st' = (Return v, st')" by blast
  from gs_calls_inv [OF len gs_inv_first_call [OF len] reach, of ts] obtain p w where
    inv: "gs_inv func x dx p w af" and pos: "0 < w0 \<longrightarrow> 0 < w" and
    uni: "unimodal_along func x dx ts \<and> 0 \<le> (0::real) \<and> 0 < w0 \<and> 0 \<le> ts \<and> ts \<le> 0 + w0 \<longrightarrow>
            0 \<le> p \<and> p \<le> ts \<and> ts \<le> p + w"
    by blast
  from inv have x1: "arg_x1 af = ray x dx p" and x4: "arg_x4 af = ray x dx (p + w)"
    by (simp_all add: gs_inv_def)
  have width: "vsub (arg_x4 af) (arg_x1 af) = smul w dx"
    by (simp add: x1 x4 vsub_ray_ray [OF len])
  from ret have small: "np_linalg_norm (gs_h af) \<le> precision"
    using gs_body_Return_iff by blast
  then have small': "np_linalg_norm (smul w dx) \<le> precision"
    by (simp add: gs_h_inv [OF len inv])
  from gs_body_Return [OF small, of "spy func" st'] ret
  have v: "v = sdiv (vadd (arg_x1 af) (arg_x4 af)) 2" by simp
  have "sdiv (vadd (ray x dx p) (ray x dx (p + w))) 2 = ray x dx (p + w / 2)"
    using len by (intro nth_equalityI) (simp_all add: field_simps)
  then have v': "v = ray x dx (p + w / 2)"
    by (simp add: v x1 x4)
  have "unimodal_along func x dx ts \<and> 0 < w0 \<and> ts \<le> w0 \<longrightarrow> p \<le> ts \<and> ts \<le> p + w"
    using uni by (auto simp: unimodal_along_def)
  with reach ret x1 x4 width small' v v' pos show ?thesis by blast
qed

lemma goldensection_success:
  assumes "goldensection (spy func) x dx precision [] = Some (Inr r)"
  obtains j v st' where "j < 64" "func x < func (ray x dx (2 ^ j))"
    "\<forall>i<j. func (ray x dx (2 ^ i)) \<le> func x"
    "goldensection_gs (spy func) precision (gs_first_call x (ray x dx (2 ^ j)))
       \<lparr>nfev = 2 * int (Suc j), world = bracket_calls x dx 1 (Suc j)\<rparr> = Some (v, st')"
    "r = \<lparr>res_x = v, res_t = np_average (np_divide (vsub v x) dx), res_nfev = nfev st'\<rparr>"
proof (cases rule: goldensection_run_cases [of func x dx precision])
  case fail
  with assms show ?thesis by (simp add: goldensection_def)
next
  case (success j)
  from assms success(4) obtain v st' where
    gs: "goldensection_gs (spy func) precision (gs_first_call x (vadd x (smul (2 ^ j) dx)))
       \<lparr>nfev = 2 * int (Suc j), world = bracket_calls x dx 1 (Suc j)\<rparr> = Some (v, st')"
    and r: "fst (pack_result x dx (v, st')) = Inr r"
    by (auto simp: goldensection_def)
  from r have "r = \<lparr>res_x = v, res_t = np_average (np_divide (vsub v x) dx), res_nfev = nfev st'\<rparr>"
    by (simp add: pack_result_def)
  with success(1-3) gs show ?thesis
    by (intro that [of j v st']) (simp_all add: ray_def)
qed

lemma goldensection_returns:
  assumes prec: "0 < precision"
    and ok: "goldensection (spy func) x dx precision [] \<noteq> Some (Inl bracketing_failed)"
  shows "\<exists>r. goldensection (spy func) x dx precision [] = Some (Inr r)"
proof (cases rule: goldensection_run_cases [of func x dx precision])
  case fail
  with ok show ?thesis by (simp add: goldensection_def)
next
  case (success j)
  from gs_terminates [OF prec] obtain v st' where
    "goldensection_gs (spy func) precision (gs_first_call x (vadd x (smul (2 ^ j) dx)))
       \<lparr>nfev = 2 * int (Suc j), world = bracket_calls x dx 1 (Suc j)\<rparr> = Some (v, st')"
    by fastforce
  with success(4) show ?thesis
    by (simp add: goldensection_def pack_result_def)
qed

text \<open>
  In exact arithmetic, and with no bound on the depth of the recursion: let the objective
  be unimodal along the ray from \<open>x\<close> in direction \<open>dx\<close>, with its minimum at
  \<open>x + ts*dx\<close>, let \<open>x\<close> and \<open>dx\<close> have the same shape and the precision be
  positive. If the call does not raise the bracketing failure, it returns a result, and
  the returned point is within \<open>precision\<close> of the minimiser in Euclidean norm. The invocation of \<^verbatim>\<open>_gs\<close> that returns it holds a
  bracket of width at most \<open>precision\<close> that contains the minimiser, and the point
  returned is the midpoint of that bracket.
\<close>

lemma goldensection_within_precision:
  assumes uni: "unimodal_along func x dx ts"
    and len: "length dx = length x"
    and prec: "0 < precision"
    and ok: "goldensection (spy func) x dx precision [] \<noteq> Some (Inl bracketing_failed)"
  shows "\<exists>r j st af stf p w.
      goldensection (spy func) x dx precision [] = Some (Inr r) \<and>
      np_linalg_norm (vsub (res_x r) (ray x dx ts)) \<le> precision \<and>
      gs_calls (spy func) precision (gs_first_call x (ray x dx (2 ^ j))) st af stf \<and>
      goldensection_gs_body (spy func) precision af stf = (Return (res_x r), stf) \<and>
      np_linalg_norm (vsub (arg_x4 af) (arg_x1 af)) \<le> precision \<and>
      res_x r = sdiv (vadd (arg_x1 af) (arg_x4 af)) 2 \<and>
      arg_x1 af = ray x dx p \<and> arg_x4 af = ray x dx (p + w) \<and> p \<le> ts \<and> ts \<le> p + w"
proof -
  from goldensection_returns [OF prec ok] obtain r where
    run: "goldensection (spy func) x dx precision [] = Some (Inr r)" ..
  from run obtain j v st' where j: "func x < func (ray x dx (2 ^ j))"
    and gs: "goldensection_gs (spy func) precision (gs_first_call x (ray x dx (2 ^ j)))
       \<lparr>nfev = 2 * int (Suc j), world = bracket_calls x dx 1 (Suc j)\<rparr> = Some (v, st')"
    and r: "r = \<lparr>res_x = v, res_t = np_average (np_divide (vsub v x) dx), res_nfev = nfev st'\<rparr>"
    by (rule goldensection_success)
  have t_pos: "(0::real) < 2 ^ j" by simp
  from j have "func (ray x dx 0) < func (ray x dx (2 ^ j))"
    by (simp add: ray_zero [OF len])
  from unimodal_keep_left [OF uni _ t_pos this] have inside: "ts \<le> 2 ^ j" by simp
  from gs_final_on_ray [OF len gs, of ts] uni t_pos inside obtain af p w where
    reach: "gs_calls (spy func) precision (gs_first_call x (ray x dx (2 ^ j)))
       \<lparr>nfev = 2 * int (Suc j), world = bracket_calls x dx 1 (Suc j)\<rparr> af st'" and
    ret: "goldensection_gs_body (spy func) precision af st' = (Return v, st')" and
    x1: "arg_x1 af = ray x dx p" and x4: "arg_x4 af = ray x dx (p + w)" and
    width: "vsub (arg_x4 af) (arg_x1 af) = smul w dx" and
    small: "np_linalg_norm (smul w dx) \<le> precision" and
    mid: "v = sdiv (vadd (arg_x1 af) (arg_x4 af)) 2" and v: "v = ray x dx (p + w / 2)" and
    w: "0 < w" and lo: "p \<le> ts" and hi: "ts \<le> p + w"
    by blast
  have "vsub v (ray x dx ts) = smul (p + w / 2 - ts) dx"
    by (simp add: v vsub_ray_ray [OF len])
  then have "np_linalg_norm (vsub v (ray x dx ts)) = \<bar>p + w / 2 - ts\<bar> * np_linalg_norm dx"
    by (simp add: norm_smul)
  also have "\<dots> \<le> w * np_linalg_norm dx"
  proof (rule mult_right_mono)
    from lo hi w show "\<bar>p + w / 2 - ts\<bar> \<le> w" by (simp add: abs_le_iff field_simps)
    show "0 \<le> np_linalg_norm dx" by (rule norm_nonneg)
  qed
  also from small w have "\<dots> \<le> precision" by (simp add: norm_smul)
  finally have close: "np_linalg_norm (vsub (res_x r) (ray x dx ts)) \<le> precision"
    by (simp add: r)
  from small have narrow: "np_linalg_norm (vsub (arg_x4 af) (arg_x1 af)) \<le> precision"
    by (simp add: width)
  have rx: "res_x r = v" by (simp add: r)
  let ?st = "\<lparr>nfev = 2 * int (Suc j), world = bracket_calls x dx 1 (Suc j)\<rparr>"
  have "goldensection (spy func) x dx precision [] = Some (Inr r) \<and>
      np_linalg_norm (vsub (res_x r) (ray x dx ts)) \<le> precision \<and>
      gs_calls (spy func) precision (gs_first_call x (ray x dx (2 ^ j))) ?st af st' \<and>
      goldensection_gs_body (spy func) precision af st' = (Return (res_x r), st') \<and>
      np_linalg_norm (vsub (arg_x4 af) (arg_x1 af)) \<le> precision \<and>
      res_x r = sdiv (vadd (arg_x1 af) (arg_x4 af)) 2 \<and>
      arg_x1 af = ray x dx p \<and> arg_x4 af = ray x dx (p + w) \<and> p \<le> ts \<and> ts \<le> p + w"
    using run close reach ret narrow mid x1 x4 lo hi unfolding rx by (intro conjI)
  then show ?thesis by blast
qed

lemma goldensection_not_failed:
  assumes "j < 64" "func x < func (ray x dx (2 ^ j))"
  shows "goldensection (spy func) x dx precision [] \<noteq> Some (Inl e)"
proof (cases rule: goldensection_run_cases [of func x dx precision])
  case fail
  from fail(1) assms(1) have "func (vadd x (smul (2 ^ j) dx)) \<le> func x" by blast
  with assms(2) show ?thesis by (simp add: ray_def)
next
  case (success i)
  then show ?thesis
    by (auto simp: goldensection_def dest: pack_result_Inr)
qed

lemma ray_1d: "ray [a] [d] s = [a + s * d]"
  by (simp add: ray_def vadd_def smul_def)

lemma quadratic_unimodal: "unimodal_along (\<lambda>v. (hd v - 3)\<^sup>2) [0] [1] 3"
proof -
  have left: "(s' - 3)\<^sup>2 < (s - 3)\<^sup>2" if "s < s'" "s' \<le> 3" for s s' :: real
  proof -
    from that have "3 - s' < 3 - s" "0 \<le> 3 - s'" by simp_all
    then have "(3 - s')\<^sup>2 < (3 - s)\<^sup>2" by (rule power_strict_mono) simp
    then show ?thesis by (simp add: power2_commute)
  qed
  have right: "(s - 3)\<^sup>2 < (s' - 3)\<^sup>2" if "3 \<le> s" "s < s'" for s s' :: real
  proof -
    from that have "s - 3 < s' - 3" "0 \<le> s - 3" by simp_all
    then show ?thesis by (rule power_strict_mono) simp
  qed
  from left right show ?thesis
    by (simp add: unimodal_along_def ray_1d)
qed

lemma goldensection_within_precision_example:
  "\<exists>r. goldensection (spy (\<lambda>v. (hd v - 3)\<^sup>2)) [0] [1] (1 / 10 ^ 6) [] = Some (Inr r) \<and>
       np_linalg_norm (vsub (res_x r) [3]) \<le> 1 / 10 ^ 6"
proof -
  let ?f = "\<lambda>v::vec. (hd v - 3)\<^sup>2"
  have len: "length [1::real] = length [0::real]" by simp
  have prec: "(0::real) < 1 / 10 ^ 6" by simp
  have "?f [0] < ?f (ray [0] [1] (2 ^ 3))"
    by (simp add: ray_1d)
  then have ok: "goldensection (spy ?f) [0] [1] (1 / 10 ^ 6) [] \<noteq> Some (Inl bracketing_failed)"
    by (rule goldensection_not_failed [rotated]) simp
  from goldensection_within_precision [OF quadratic_unimodal len prec ok] obtain r where
    "goldensection (spy ?f) [0] [1] (1 / 10 ^ 6) [] = Some (Inr r)"
    "np_linalg_norm (vsub (res_x r) (ray [0] [1] 3)) \<le> 1 / 10 ^ 6"
    by blast
  then show ?thesis by (intro exI [of _ r]) (simp add: ray_1d)
qed



lemma np_divide_along:
  "\<forall>d\<in>set dx. d \<noteq> 0 \<Longrightarrow> np_divide (smul m dx) dx = map (\<lambda>d. Some m) dx"
  by (induction dx) (simp_all add: np_divide_def smul_def)

lemma np_average_const: "qs \<noteq> [] \<Longrightarrow> np_average (map (\<lambda>d. Some m) qs) = Some m"
  by (simp add: np_average_def comp_def sum_list_triv image_iff)

lemma np_average_undefined: "None \<in> set qs \<Longrightarrow> np_average qs = None"
  by (simp add: np_average_def)

lemma np_divide_by_zero:
  assumes "length a = length b" "0 \<in> set b"
  shows "None \<in> set (np_divide a b)"
proof -
  from assms(2) obtain i where i: "i < length b" "b ! i = 0"
    by (auto simp: in_set_conv_nth)
  with assms(1) have "np_divide a b ! i = None" "i < length (np_divide a b)"
    by (simp_all add: np_divide_def)
  then show ?thesis by (metis nth_mem)
qed

lemma goldensection_point_on_ray:
  assumes run: "goldensection (spy func) x dx precision [] = Some (Inr r)"
    and len: "length dx = length x"
  shows "\<exists>m. res_x r = ray x dx m \<and> res_t r = np_average (np_divide (smul m dx) dx) \<and> dx \<noteq> []"
proof -
  from run obtain j v st' where j: "func x < func (ray x dx (2 ^ j))"
    and gs: "goldensection_gs (spy func) precision (gs_first_call x (ray x dx (2 ^ j)))
       \<lparr>nfev = 2 * int (Suc j), world = bracket_calls x dx 1 (Suc j)\<rparr> = Some (v, st')"
    and r: "r = \<lparr>res_x = v, res_t = np_average (np_divide (vsub v x) dx), res_nfev = nfev st'\<rparr>"
    by (rule goldensection_success)
  from gs_final_on_ray [OF len gs, of 0] obtain p w where v: "v = ray x dx (p + w / 2)"
    by blast
  have "dx \<noteq> []"
  proof
    assume "dx = []"
    with len have "ray x dx (2 ^ j) = x" by (simp add: ray_def vadd_def)
    with j show False by simp
  qed
  then show ?thesis
    by (intro exI [of _ "p + w / 2"]) (simp add: r v vsub_ray_start [OF len])
qed

text \<open>
  In exact arithmetic: a search that returns, on a start and a direction of the same
  shape, with no component of the direction zero: the returned step is a
  number, it is the average over the components of \<open>(point[i] - start[i]) / direction[i]\<close>,
  and \<open>start + step*direction\<close> is exactly the returned point.
\<close>

lemma step_round_trip:
  assumes run: "goldensection (spy func) x dx precision [] = Some (Inr r)"
    and len: "length dx = length x"
    and nonzero: "\<forall>d\<in>set dx. d \<noteq> 0"
  shows "\<exists>s. res_t r = Some s \<and>
           s = (\<Sum>i\<leftarrow>[0..<length dx]. (res_x r ! i - x ! i) / dx ! i) / real (length dx) \<and>
           vadd x (smul s dx) = res_x r"
proof -
  from goldensection_point_on_ray [OF run len] obtain m where
    pt: "res_x r = ray x dx m" and t: "res_t r = np_average (np_divide (smul m dx) dx)"
    and ne: "dx \<noteq> []" by blast
  from t nonzero ne have step: "res_t r = Some m"
    by (simp add: np_divide_along np_average_const)
  have same: "map (\<lambda>i. (res_x r ! i - x ! i) / dx ! i) [0..<length dx] = map (\<lambda>i. m) [0..<length dx]"
  proof (rule map_cong [OF refl])
    fix i assume "i \<in> set [0..<length dx]"
    then have i: "i < length dx" by simp
    with nonzero have "dx ! i \<noteq> 0" by (simp add: nth_mem)
    with i len show "(res_x r ! i - x ! i) / dx ! i = m" by (simp add: pt)
  qed
  have "(\<Sum>i\<leftarrow>[0..<length dx]. (res_x r ! i - x ! i) / dx ! i) = real (length dx) * m"
    unfolding same by (simp add: sum_list_triv)
  with ne have avg: "m = (\<Sum>i\<leftarrow>[0..<length dx]. (res_x r ! i - x ! i) / dx ! i) / real (length dx)"
    by simp
  have "vadd x (smul m dx) = res_x r" by (simp add: pt ray_def)
  with step avg show ?thesis by blast
qed

lemma step_round_trip_example:
  "\<exists>r s. goldensection (spy (\<lambda>v. (hd v - 3)\<^sup>2)) [0, 5] [1, - 2] (1 / 10 ^ 6) [] = Some (Inr r) \<and>
     res_t r = Some s \<and> vadd [0, 5] (smul s [1, - 2]) = res_x r \<and>
     s = ((res_x r ! 0 - 0) / 1 + (res_x r ! 1 - 5) / (- 2)) / 2"
proof -
  let ?f = "\<lambda>v::vec. (hd v - 3)\<^sup>2"
  have "?f [0, 5] < ?f (ray [0, 5] [1, - 2] (2 ^ 3))"
    by (simp add: ray_def vadd_def smul_def)
  then have "goldensection (spy ?f) [0, 5] [1, - 2] (1 / 10 ^ 6) [] \<noteq> Some (Inl bracketing_failed)"
    by (rule goldensection_not_failed [rotated]) simp
  from goldensection_returns [OF _ this] obtain r where
    run: "goldensection (spy ?f) [0, 5] [1, - 2] (1 / 10 ^ 6) [] = Some (Inr r)" by auto
  have len: "length [1, - 2 :: real] = length [0, 5 :: real]" by simp
  have nonzero: "\<forall>d\<in>set [1, - 2 :: real]. d \<noteq> 0" by simp
  from step_round_trip [OF run len nonzero] obtain s where
    step: "res_t r = Some s"
    and avg: "s = (\<Sum>i\<leftarrow>[0..<length [1, - 2 :: real]].
                   (res_x r ! i - [0, 5] ! i) / [1, - 2] ! i) / real (length [1, - 2 :: real])"
    and again: "vadd [0, 5] (smul s [1, - 2]) = res_x r"
    by blast
  have idx: "[0..<length [1, - 2 :: real]] = [0, 1]" by (simp add: upt_rec)
  from avg have "s = ((res_x r ! 0 - 0) / 1 + (res_x r ! 1 - 5) / (- 2)) / 2"
    unfolding idx by simp
  with run step again show ?thesis by blast
qed

text \<open>
  Claim C6. The step is recovered as the plain average of the ratios of the components,
  with no weight for the size of a component of the direction. From the start \<open>(0, 1)\<close>
  along \<open>(1, 1e-20)\<close> the point at parameter \<open>s > 0\<close> has the second component
  \<open>1 + s*1e-20\<close>, which in the doubles of the source is 1. For that point the ratios
  are \<open>s\<close> and 0, the step returned is \<open>s / 2\<close>, and \<open>start + step*direction\<close> is
  more than \<open>s / 2\<close> away from the point returned, whatever the precision.
\<close>

theorem averaged_step_misses_rounded_point:
  assumes "0 < s"
  shows "\<exists>r. pack_result [0, 1] [1, 1 / 10 ^ 20] ([s, 1], st) = (Inr r, st) \<and>
           res_x r = [s, 1] \<and> res_t r = Some (s / 2) \<and>
           s / 2 < np_linalg_norm (vsub (vadd [0, 1] (smul (s / 2) [1, 1 / 10 ^ 20])) (res_x r))"
proof -
  let ?r = "\<lparr>res_x = [s, 1], res_t = Some (s / 2), res_nfev = nfev st\<rparr>"
  have a: "pack_result [0, 1] [1, 1 / 10 ^ 20] ([s, 1], st) = (Inr ?r, st)"
    by (simp add: pack_result_def vsub_def np_divide_def np_average_def)
  let ?e = "s / 2 * (1 / 10 ^ 20)"
  have b: "vsub (vadd [0, 1] (smul (s / 2) [1, 1 / 10 ^ 20])) [s, 1] = [- (s / 2), ?e]"
    by (simp add: vadd_def smul_def vsub_def)
  from assms have "0 < ?e" by simp
  then have "0 < ?e\<^sup>2" by simp
  then have "(s / 2)\<^sup>2 < (- (s / 2))\<^sup>2 + ?e\<^sup>2" by simp
  with assms have "s / 2 < sqrt ((- (s / 2))\<^sup>2 + ?e\<^sup>2)"
    by (intro real_less_rsqrt)
  then have c: "s / 2 < np_linalg_norm [- (s / 2), ?e]"
    by (simp add: np_linalg_norm_def)
  from a b c have "pack_result [0, 1] [1, 1 / 10 ^ 20] ([s, 1], st) = (Inr ?r, st) \<and>
           res_x ?r = [s, 1] \<and> res_t ?r = Some (s / 2) \<and>
           s / 2 < np_linalg_norm (vsub (vadd [0, 1] (smul (s / 2) [1, 1 / 10 ^ 20])) (res_x ?r))"
    by simp
  then show ?thesis by blast
qed

theorem averaged_step_misses_rounded_point_witness:
  "\<exists>r. pack_result [0, 1] [1, 1 / 10 ^ 20] ([3, 1], \<lparr>nfev = 43, world = []\<rparr>) =
          (Inr r, \<lparr>nfev = 43, world = ([]::vec list)\<rparr>) \<and>
       res_x r = [3, 1] \<and> res_t r = Some (3 / 2) \<and> res_nfev r = 43 \<and>
       3 / 2 < np_linalg_norm (vsub (vadd [0, 1] (smul (3 / 2) [1, 1 / 10 ^ 20])) (res_x r))"
proof -
  have pos: "(0::real) < 3" by simp
  from averaged_step_misses_rounded_point [OF pos, of "\<lparr>nfev = 43, world = ([]::vec list)\<rparr>"]
  obtain r where r: "pack_result [0, 1] [1, 1 / 10 ^ 20] ([3, 1], \<lparr>nfev = 43, world = []\<rparr>) =
          (Inr r, \<lparr>nfev = 43, world = ([]::vec list)\<rparr>)"
    "res_x r = [3, 1]" "res_t r = Some (3 / 2)"
    "3 / 2 < np_linalg_norm (vsub (vadd [0, 1] (smul (3 / 2) [1, 1 / 10 ^ 20])) (res_x r))"
    by blast
  from r(1) have "res_nfev r = 43" by (auto simp: pack_result_def)
  with r show ?thesis by blast
qed

lemma zero_component_step_not_finite:
  assumes run: "goldensection (spy func) x dx precision [] = Some (Inr r)"
    and len: "length dx = length x"
    and zero: "0 \<in> set dx"
  shows "res_t r = None"
proof -
  from goldensection_point_on_ray [OF run len] obtain m where
    t: "res_t r = np_average (np_divide (smul m dx) dx)" by blast
  have "None \<in> set (np_divide (smul m dx) dx)"
    by (rule np_divide_by_zero [OF _ zero]) simp
  with t show ?thesis by (simp add: np_average_undefined)
qed

text \<open>
  Claim C9. The step recovery \<^verbatim>\<open>np.average((xopt - x) / dx)\<close> has no guard. On the
  objective \<open>v \<mapsto> v[0]\<close>, start \<open>(0, 0)\<close>, direction \<open>(1, 0)\<close> and precision 1 the
  search succeeds after two evaluations, divides by the zero component of the direction,
  and returns a step that is not a number.
\<close>

theorem zero_component_division_is_unguarded:
  "goldensection (spy (\<lambda>v. hd v)) [0, 0] [1, 0] 1 [] =
     Some (Inr \<lparr>res_x = [1 / 2, 0], res_t = None, res_nfev = 2\<rparr>)"
  by (simp add: goldensection_def search_example)

section \<open>Properties of the least-squares instance\<close>

lemma ncols_as_column [simp]: "ncols (as_column x) = 1"
  by (simp add: as_column_def reshape_column_def split: pyarg.splits)

lemma entries_as_column [simp]: "entries (as_column x) = arg_values x"
  by (simp add: as_column_def reshape_column_def arg_values_def split: pyarg.splits)

lemma nrows_as_column: "wf_arg x \<Longrightarrow> nrows (as_column x) = length (arg_values x)"
proof (cases x)
  case (PyList xs)
  then show ?thesis by (simp add: as_column_def reshape_column_def arg_values_def)
next
  case (NdArray a)
  assume wf: "wf_arg x"
  show ?thesis
  proof (cases "length (shape a) \<noteq> 2 \<or> shape a ! 1 \<noteq> 1")
    case True
    with NdArray show ?thesis
      by (simp add: as_column_def reshape_column_def arg_values_def)
  next
    case False
    then obtain r where "shape a = [r, 1]"
      by (cases "shape a"; cases "tl (shape a)") auto
    with NdArray wf show ?thesis
      by (simp add: as_column_def arg_values_def wf_arg_def)
  qed
qed

lemma matmul_column:
  "ncols Q = 1 \<Longrightarrow>
   matmul P Q = \<lparr>nrows = nrows P, ncols = 1,
                 entries = map (\<lambda>i. \<Sum>j\<leftarrow>[0..<ncols P]. entries P ! (i * ncols P + j) * entries Q ! j)
                             [0..<nrows P]\<rparr>"
  by (simp add: matmul_def)

lemma np_subtract_columns:
  assumes "nrows P = m" "ncols P = 1" "nrows Q = m" "ncols Q = 1"
  shows "np_subtract P Q =
           Inr \<lparr>nrows = m, ncols = 1, entries = map (\<lambda>i. entries P ! i - entries Q ! i) [0..<m]\<rparr>"
proof -
  have "map (\<lambda>i. broadcast_at P i 0 - broadcast_at Q i 0) [0..<m] =
        map (\<lambda>i. entries P ! i - entries Q ! i) [0..<m]"
    using assms by (intro map_cong [OF refl]) (auto simp: broadcast_at_def)
  with assms show ?thesis
    by (simp add: np_subtract_def broadcast_dim_def)
qed

lemma np_subtract_rows_mismatch:
  assumes "nrows P \<noteq> nrows Q" "nrows P \<noteq> 1" "nrows Q \<noteq> 1"
  shows "np_subtract P Q = Inl (ValueError_broadcast (mshape P) (mshape Q))"
  using assms by (simp add: np_subtract_def broadcast_dim_def split: option.splits)

lemma np_subtract_error:
  "np_subtract P Q = Inl e \<Longrightarrow> e = ValueError_broadcast (mshape P) (mshape Q)"
  by (auto simp: np_subtract_def split: option.splits prod.splits)

lemma squared_norm: "(np_linalg_norm es)\<^sup>2 = (\<Sum>u\<leftarrow>es. u\<^sup>2)"
  by (auto simp: np_linalg_norm_def intro!: real_sqrt_pow2 sum_list_nonneg)

text \<open>
  Claim C7. A call raises the shape-mismatch error exactly when the column vector made
  from the argument has a row count other than the column count of \<^verbatim>\<open>A\<close>; the error
  then carries the shape of \<^verbatim>\<open>A\<close> and the shape of that column vector, and is the
  whole outcome of the call. The column vector made from an array, or from a flat
  sequence, has one row for each number the argument holds.
\<close>

theorem call_raises_shape_mismatch_iff:
  "((\<exists>sa sx. least_squares_call self x = Inl (ValueError_shape_mismatch sa sx))
      \<longleftrightarrow> nrows (as_column x) \<noteq> ncols (self_A self)) \<and>
   (\<forall>sa sx. least_squares_call self x = Inl (ValueError_shape_mismatch sa sx) \<longrightarrow>
      sa = mshape (self_A self) \<and> sx = mshape (as_column x)) \<and>
   (nrows (as_column x) \<noteq> ncols (self_A self) \<longrightarrow>
      least_squares_call self x =
        Inl (ValueError_shape_mismatch (mshape (self_A self)) (mshape (as_column x)))) \<and>
   (wf_arg x \<longrightarrow> mshape (as_column x) = (length (arg_values x), 1))"
proof -
  have accepted: "least_squares_call self x \<noteq> Inl (ValueError_shape_mismatch sa sx)"
    if "nrows (as_column x) = ncols (self_A self)" for sa sx
    using that
    by (auto simp: least_squares_call_def Let_def split: sum.splits dest: np_subtract_error)
  have rejected: "least_squares_call self x =
        Inl (ValueError_shape_mismatch (mshape (self_A self)) (mshape (as_column x)))"
    if "nrows (as_column x) \<noteq> ncols (self_A self)"
    using that by (simp add: least_squares_call_def Let_def)
  have shape: "mshape (as_column x) = (length (arg_values x), 1)" if "wf_arg x"
    using that by (simp add: mshape_def nrows_as_column)
  from accepted rejected shape show ?thesis
    by (cases "nrows (as_column x) = ncols (self_A self)") auto
qed

lemma call_accepted:
  assumes b: "nrows (self_b self) = nrows (self_A self)" "ncols (self_b self) = 1"
    and x: "nrows (as_column x) = ncols (self_A self)"
  shows "least_squares_call self x =
           Inr ((np_linalg_norm (residual (self_A self) (arg_values x) (self_b self)))\<^sup>2)"
proof -
  let ?A = "self_A self" and ?b = "self_b self"
  let ?R = "matmul ?A (as_column x)"
  have R: "?R = \<lparr>nrows = nrows ?A, ncols = 1,
                 entries = map (\<lambda>i. \<Sum>j\<leftarrow>[0..<ncols ?A]. entries ?A ! (i * ncols ?A + j) * arg_values x ! j)
                             [0..<nrows ?A]\<rparr>"
    by (simp add: matmul_column)
  have "map (\<lambda>i. entries ?R ! i - entries ?b ! i) [0..<nrows ?A] =
        residual ?A (arg_values x) ?b"
    unfolding residual_def by (rule map_cong [OF refl]) (simp add: R)
  moreover have "np_subtract ?R ?b =
      Inr \<lparr>nrows = nrows ?A, ncols = 1,
           entries = map (\<lambda>i. entries ?R ! i - entries ?b ! i) [0..<nrows ?A]\<rparr>"
    by (rule np_subtract_columns) (simp_all add: R b)
  ultimately show ?thesis
    using x by (simp add: least_squares_call_def Let_def)
qed

lemma call_flat_or_column:
  "least_squares_call self (NdArray \<lparr>shape = [length xs, 1], data = xs\<rparr>) =
   least_squares_call self (PyList xs)"
  by (simp add: least_squares_call_def as_column_def reshape_column_def)

text \<open>
  In exact arithmetic, and for arrays of reals: for an instance whose \<^verbatim>\<open>b\<close> is a column with as many rows as \<^verbatim>\<open>A\<close>, and
  an argument that holds as many numbers as \<^verbatim>\<open>A\<close> has columns, the call returns the
  squared Euclidean norm of \<open>A*xs - b\<close>, \<open>xs\<close> being the numbers of the argument in
  order: the sum over the rows \<open>i\<close> of \<open>(\<Sum>j. A[i,j]*xs[j] - b[i])\<^sup>2\<close>. The same numbers
  given as a flat sequence or as a column vector give the same result. The call is a
  function of the instance and the argument and changes neither.
\<close>

lemma call_is_squared_residual_norm:
  assumes b: "nrows (self_b self) = nrows (self_A self)" "ncols (self_b self) = 1"
    and wf: "wf_arg x"
    and accepted: "length (arg_values x) = ncols (self_A self)"
  shows "least_squares_call self x =
           Inr ((np_linalg_norm (residual (self_A self) (arg_values x) (self_b self)))\<^sup>2) \<and>
         least_squares_call self x =
           Inr (\<Sum>i\<leftarrow>[0..<nrows (self_A self)].
                  ((\<Sum>j\<leftarrow>[0..<ncols (self_A self)].
                      entries (self_A self) ! (i * ncols (self_A self) + j) * arg_values x ! j)
                   - entries (self_b self) ! i)\<^sup>2) \<and>
         least_squares_call self (PyList (arg_values x)) = least_squares_call self x \<and>
         least_squares_call self (NdArray \<lparr>shape = [length (arg_values x), 1], data = arg_values x\<rparr>)
           = least_squares_call self x"
proof -
  let ?result = "Inr ((np_linalg_norm (residual (self_A self) (arg_values x) (self_b self)))\<^sup>2)"
  from wf accepted have rows: "nrows (as_column x) = ncols (self_A self)"
    by (simp add: nrows_as_column)
  have direct: "least_squares_call self x = ?result"
    by (rule call_accepted [OF b rows])
  have "nrows (as_column (PyList (arg_values x))) = ncols (self_A self)"
    using accepted by (simp add: as_column_def reshape_column_def)
  from call_accepted [OF b this] have flat: "least_squares_call self (PyList (arg_values x)) = ?result"
    by (simp add: arg_values_def)
  have expand: "(np_linalg_norm (residual (self_A self) (arg_values x) (self_b self)))\<^sup>2 =
      (\<Sum>i\<leftarrow>[0..<nrows (self_A self)].
                  ((\<Sum>j\<leftarrow>[0..<ncols (self_A self)].
                      entries (self_A self) ! (i * ncols (self_A self) + j) * arg_values x ! j)
                   - entries (self_b self) ! i)\<^sup>2)"
    by (simp add: squared_norm residual_def comp_def)
  have column: "least_squares_call self
      (NdArray \<lparr>shape = [length (arg_values x), 1], data = arg_values x\<rparr>) =
      least_squares_call self (PyList (arg_values x))"
    by (rule call_flat_or_column)
  from direct have summed: "least_squares_call self x =
           Inr (\<Sum>i\<leftarrow>[0..<nrows (self_A self)].
                  ((\<Sum>j\<leftarrow>[0..<ncols (self_A self)].
                      entries (self_A self) ! (i * ncols (self_A self) + j) * arg_values x ! j)
                   - entries (self_b self) ! i)\<^sup>2)"
    by (simp only: expand)
  from direct flat have flat': "least_squares_call self (PyList (arg_values x)) = least_squares_call self x"
    by (simp only:)
  from column flat' have column': "least_squares_call self
      (NdArray \<lparr>shape = [length (arg_values x), 1], data = arg_values x\<rparr>) =
      least_squares_call self x"
    by (simp only:)
  from direct summed flat' column' show ?thesis by (intro conjI)
qed

lemma call_is_squared_residual_norm_example:
  "least_squares_call
     \<lparr>self_A = \<lparr>nrows = 2, ncols = 2, entries = [1, 2, 3, 4]\<rparr>,
      self_b = \<lparr>nrows = 2, ncols = 1, entries = [1, 1]\<rparr>\<rparr> (PyList [1, 1]) = Inr 40 \<and>
   least_squares_call
     \<lparr>self_A = \<lparr>nrows = 2, ncols = 2, entries = [1, 2, 3, 4]\<rparr>,
      self_b = \<lparr>nrows = 2, ncols = 1, entries = [1, 1]\<rparr>\<rparr>
     (NdArray \<lparr>shape = [2, 1], data = [1, 1]\<rparr>) = Inr 40"
proof -
  let ?A = "\<lparr>nrows = 2, ncols = 2, entries = [1, 2, 3, 4]\<rparr>"
  let ?b = "\<lparr>nrows = 2, ncols = 1, entries = [1, 1]\<rparr>"
  let ?self = "\<lparr>self_A = ?A, self_b = ?b\<rparr>"
  let ?x = "PyList [1, 1]"
  have b: "nrows (self_b ?self) = nrows (self_A ?self)" "ncols (self_b ?self) = 1" by simp_all
  have wf: "wf_arg ?x" by (simp add: wf_arg_def)
  have vals: "arg_values ?x = [1, 1]" by (simp add: arg_values_def)
  have accepted: "length (arg_values ?x) = ncols (self_A ?self)" by (simp add: vals)
  note inst = call_is_squared_residual_norm [OF b wf accepted]
  have idx: "[0..<2] = [0, 1]" by (simp add: upt_rec)
  have "(\<Sum>i\<leftarrow>[0..<nrows (self_A ?self)].
            ((\<Sum>j\<leftarrow>[0..<ncols (self_A ?self)].
                entries (self_A ?self) ! (i * ncols (self_A ?self) + j) * arg_values ?x ! j)
             - entries (self_b ?self) ! i)\<^sup>2) = (40 :: real)"
    by (simp add: idx vals)
  with inst [THEN conjunct2, THEN conjunct1]
  have flat: "least_squares_call ?self ?x = Inr 40" by (simp only:)
  from inst [THEN conjunct2, THEN conjunct2, THEN conjunct2] flat
  have "least_squares_call ?self (NdArray \<lparr>shape = [length (arg_values ?x), 1], data = arg_values ?x\<rparr>)
          = Inr 40" by (simp only:)
  moreover have "length [1, 1 :: real] = 2" by simp
  ultimately have "least_squares_call ?self (NdArray \<lparr>shape = [2, 1], data = [1, 1]\<rparr>) = Inr 40"
    by (simp only: vals)
  with flat show ?thesis ..
qed

theorem call_raises_shape_mismatch_iff_witness:
  "least_squares_call
     \<lparr>self_A = \<lparr>nrows = 2, ncols = 2, entries = [1, 2, 3, 4]\<rparr>,
      self_b = \<lparr>nrows = 2, ncols = 1, entries = [1, 1]\<rparr>\<rparr> (PyList [1, 2, 3])
     = Inl (ValueError_shape_mismatch (2, 2) (3, 1)) \<and>
   least_squares_call
     \<lparr>self_A = \<lparr>nrows = 2, ncols = 2, entries = [1, 2, 3, 4]\<rparr>,
      self_b = \<lparr>nrows = 2, ncols = 1, entries = [1, 1]\<rparr>\<rparr> (PyList [1, 1])
     \<noteq> Inl (ValueError_shape_mismatch (2, 2) (2, 1))"
proof -
  let ?self = "\<lparr>self_A = \<lparr>nrows = 2, ncols = 2, entries = [1, 2, 3, 4]\<rparr>,
      self_b = \<lparr>nrows = 2, ncols = 1, entries = [1, 1]\<rparr>\<rparr>"
  have three: "nrows (as_column (PyList [1, 2, 3])) \<noteq> ncols (self_A ?self)"
    and two: "\<not> nrows (as_column (PyList [1, 1])) \<noteq> ncols (self_A ?self)"
    and shapes: "mshape (self_A ?self) = (2, 2)" "mshape (as_column (PyList [1, 2, 3])) = (3, 1)"
    by (simp_all add: as_column_def reshape_column_def mshape_def)
  from call_raises_shape_mismatch_iff
    [of ?self "PyList [1, 2, 3]", THEN conjunct2, THEN conjunct2, THEN conjunct1, rule_format, OF three]
  have a: "least_squares_call ?self (PyList [1, 2, 3]) = Inl (ValueError_shape_mismatch (2, 2) (3, 1))"
    by (simp only: shapes)
  from call_raises_shape_mismatch_iff [of ?self "PyList [1, 1]", THEN conjunct1] two
  have b: "least_squares_call ?self (PyList [1, 1]) \<noteq> Inl (ValueError_shape_mismatch (2, 2) (2, 1))"
    by blast
  from a b show ?thesis ..
qed

text \<open>
  Claim C10. The constructor checks nothing: for every \<^verbatim>\<open>A\<close> and \<^verbatim>\<open>b\<close> it returns
  the instance that holds exactly these two, whether or not their row counts agree.
  A mismatch of the row counts shows only later: a call on an argument of the right size
  then fails in the subtraction, when neither row count is 1 and numpy cannot broadcast.
\<close>

theorem init_performs_no_validation:
  "self_A (least_squares_init A b) = A \<and> self_b (least_squares_init A b) = b \<and>
   (nrows b \<noteq> nrows A \<and> nrows b \<noteq> 1 \<and> nrows A \<noteq> 1 \<and> nrows (as_column x) = ncols A \<longrightarrow>
      least_squares_call (least_squares_init A b) x =
        Inl (ValueError_broadcast (nrows A, 1) (mshape b)))"
proof -
  have "least_squares_call (least_squares_init A b) x =
        Inl (ValueError_broadcast (nrows A, 1) (mshape b))"
    if "nrows b \<noteq> nrows A" "nrows b \<noteq> 1" "nrows A \<noteq> 1" "nrows (as_column x) = ncols A"
  proof -
    from that have "np_subtract (matmul A (as_column x)) b =
        Inl (ValueError_broadcast (mshape (matmul A (as_column x))) (mshape b))"
      by (intro np_subtract_rows_mismatch) (simp_all add: matmul_def)
    with that(4) show ?thesis
      by (simp add: least_squares_call_def least_squares_init_def Let_def mshape_def matmul_def)
  qed
  then show ?thesis by (simp add: least_squares_init_def)
qed

theorem init_performs_no_validation_witness:
  "self_b (least_squares_init \<lparr>nrows = 2, ncols = 2, entries = [1, 2, 3, 4]\<rparr>
             \<lparr>nrows = 3, ncols = 1, entries = [1, 1, 1]\<rparr>)
     = \<lparr>nrows = 3, ncols = 1, entries = [1, 1, 1]\<rparr> \<and>
   least_squares_call
     (least_squares_init \<lparr>nrows = 2, ncols = 2, entries = [1, 2, 3, 4]\<rparr>
        \<lparr>nrows = 3, ncols = 1, entries = [1, 1, 1]\<rparr>) (PyList [1, 1])
     = Inl (ValueError_broadcast (2, 1) (3, 1))"
  using init_performs_no_validation
    [of "\<lparr>nrows = 2, ncols = 2, entries = [1, 2, 3, 4]\<rparr>"
        "\<lparr>nrows = 3, ncols = 1, entries = [1, 1, 1]\<rparr>" "PyList [1, 1]"]
  by (simp add: as_column_def reshape_column_def mshape_def)

end
